theory Spec2Isabelle
  imports Complex_Main
begin

unbundle bit_operations_syntax

section \<open>Python values\<close>

text \<open>
  The two programs (\<^verbatim>\<open>main.py\<close>, the pipeline that builds the ledger, and
  \<^verbatim>\<open>verificar_cadena.py\<close>, the independent verifier) exchange blocks through
  \<^verbatim>\<open>blockchain.json\<close>. A block is a Python \<^verbatim>\<open>dict\<close>; after \<^verbatim>\<open>json.load\<close> its
  fields can hold any JSON value. Exceptions are values of \<open>pyerror\<close>; a function that
  can raise returns \<open>pyerror + 'a\<close>.
\<close>

datatype pyerror = KeyError | TypeError | IndexError | ValueError | OSError

text \<open>
  A dictionary keeps its keys in insertion order (\<^verbatim>\<open>str\<close>, \<^verbatim>\<open>items()\<close>, \<^verbatim>\<open>values()\<close> and
  \<^verbatim>\<open>json.dump\<close> all follow it), so it is an association list. A float is written
  \<open>PFloat m e\<close> for the decimal \<open>m * 10 ^ e\<close> that \<^verbatim>\<open>repr\<close> prints for it (the shortest
  decimal that reads back as the same double), for finite values other than the negative
  zero. Text is a list of code points below 256.
\<close>

datatype pyval =
    PNone
  | PBool bool
  | PInt int
  | PFloat int int
  | PStr string
  | PList "pyval list"
  | PDict "(string \<times> pyval) list"

definition dict_get :: "('k \<times> 'v) list \<Rightarrow> 'k \<Rightarrow> 'v option" where
  "dict_get d k = map_of d k"

definition dict_contains :: "('k \<times> 'v) list \<Rightarrow> 'k \<Rightarrow> bool" where
  "dict_contains d k = (dict_get d k \<noteq> None)"

text \<open>\<^verbatim>\<open>d[k] = v\<close>: an existing key keeps its position, a new key goes last.\<close>

fun dict_set :: "('k \<times> 'v) list \<Rightarrow> 'k \<Rightarrow> 'v \<Rightarrow> ('k \<times> 'v) list" where
  "dict_set [] k v = [(k, v)]"
| "dict_set ((k', v') # d) k v = (if k' = k then (k, v) # d else (k', v') # dict_set d k v)"

definition dict_del :: "('k \<times> 'v) list \<Rightarrow> 'k \<Rightarrow> ('k \<times> 'v) list" where
  "dict_del d k = filter (\<lambda>kv. fst kv \<noteq> k) d"

subsection \<open>\<^verbatim>\<open>str\<close> and \<^verbatim>\<open>repr\<close>\<close>

definition digit_char :: "nat \<Rightarrow> char" where
  "digit_char n = ''0123456789abcdef'' ! n"

fun show_nat :: "nat \<Rightarrow> string" where
  "show_nat n = (if n < 10 then [digit_char n] else show_nat (n div 10) @ [digit_char (n mod 10)])"

declare show_nat.simps [simp del]

definition show_int :: "int \<Rightarrow> string" where
  "show_int i = (if i < 0 then ''-'' @ show_nat (nat (- i)) else show_nat (nat i))"

text \<open>Trailing zeros of the significand move into the exponent.\<close>

fun strip_zeros :: "nat \<Rightarrow> int \<Rightarrow> nat \<times> int" where
  "strip_zeros n e = (if n \<noteq> 0 \<and> n mod 10 = 0 then strip_zeros (n div 10) (e + 1) else (n, e))"

declare strip_zeros.simps [simp del]

text \<open>
  \<^verbatim>\<open>float.__repr__\<close>: with \<open>decpt\<close> the position of the decimal point after the first
  digit group, fixed notation when \<open>-4 < decpt \<le> 16\<close> (always with a fractional part),
  exponent notation with at least two exponent digits otherwise.
\<close>

definition show_exp :: "int \<Rightarrow> string" where
  "show_exp x = (if x < 0 then ''-'' else ''+'') @
     (if \<bar>x\<bar> < 10 then ''0'' else '''') @ show_nat (nat \<bar>x\<bar>)"

definition float_repr :: "int \<Rightarrow> int \<Rightarrow> string" where
  "float_repr m e =
     (if m = 0 then ''0.0''
      else case strip_zeros (nat \<bar>m\<bar>) e of (m', e') \<Rightarrow>
        let ds = show_nat m'; n = int (length ds); decpt = n + e';
            sign = (if m < 0 then ''-'' else '''')
        in if decpt \<le> - 4 \<or> 16 < decpt
           then sign @ take 1 ds @ (if 1 < n then ''.'' @ drop 1 ds else '''') @
                ''e'' @ show_exp (decpt - 1)
           else if decpt \<le> 0 then sign @ ''0.'' @ replicate (nat (- decpt)) (CHR ''0'') @ ds
           else if n \<le> decpt then sign @ ds @ replicate (nat (decpt - n)) (CHR ''0'') @ ''.0''
           else sign @ take (nat decpt) ds @ ''.'' @ drop (nat decpt) ds)"

text \<open>
  \<^verbatim>\<open>repr\<close> of text: double quotes when the text has a single quote and no double quote,
  single quotes otherwise; the quote in use and the backslash are escaped, as are the
  characters that are not printable.
\<close>

definition hex_byte :: "nat \<Rightarrow> string" where
  "hex_byte n = [digit_char (n div 16), digit_char (n mod 16)]"

definition escape_char :: "char \<Rightarrow> char \<Rightarrow> string" where
  "escape_char q c =
     (let n = (of_char c :: nat) in
      if c = q \<or> n = 92 then [CHR 0x5C, c]
      else if n = 9 then [CHR 0x5C, CHR ''t'']
      else if n = 10 then [CHR 0x5C, CHR ''n'']
      else if n = 13 then [CHR 0x5C, CHR ''r'']
      else if n < 32 \<or> (127 \<le> n \<and> n \<le> 160) \<or> n = 173 then [CHR 0x5C, CHR ''x''] @ hex_byte n
      else [c])"

definition str_repr :: "string \<Rightarrow> string" where
  "str_repr s =
     (let q = (if CHR 0x27 \<in> set s \<and> CHR 0x22 \<notin> set s then CHR 0x22 else CHR 0x27)
      in [q] @ concat (map (escape_char q) s) @ [q])"

fun join :: "string \<Rightarrow> string list \<Rightarrow> string" where
  "join sep [] = []"
| "join sep [x] = x"
| "join sep (x # y # ys) = x @ sep @ join sep (y # ys)"

fun py_repr :: "pyval \<Rightarrow> string" where
  "py_repr PNone = ''None''"
| "py_repr (PBool b) = (if b then ''True'' else ''False'')"
| "py_repr (PInt i) = show_int i"
| "py_repr (PFloat m e) = float_repr m e"
| "py_repr (PStr s) = str_repr s"
| "py_repr (PList xs) = ''['' @ join '', '' (map py_repr xs) @ '']''"
| "py_repr (PDict kvs) =
     ''{'' @ join '', '' (map (\<lambda>kv. str_repr (fst kv) @ '': '' @ py_repr (snd kv)) kvs) @ ''}''"

text \<open>\<^verbatim>\<open>str(x)\<close> is the text itself for text and \<^verbatim>\<open>repr(x)\<close> for everything else.\<close>

fun py_str :: "pyval \<Rightarrow> string" where
  "py_str (PStr s) = s"
| "py_str v = py_repr v"

subsection \<open>\<^verbatim>\<open>hashlib.sha256(s.encode()).hexdigest()\<close>\<close>

text \<open>
  SHA-256 as FIPS 180-4 defines it, on 32-bit words held as naturals below \<open>2 ^ 32\<close>
  (the round constants and the initial hash value are written in decimal), and UTF-8 for
  code points below 256.
\<close>

definition encode :: "string \<Rightarrow> nat list" where
  "encode s = concat (map (\<lambda>c. let n = (of_char c :: nat) in
                                if n < 128 then [n] else [192 + n div 64, 128 + n mod 64]) s)"

definition add32 :: "nat \<Rightarrow> nat \<Rightarrow> nat" where
  "add32 a b = (a + b) mod 4294967296"

definition rotr :: "nat \<Rightarrow> nat \<Rightarrow> nat" where
  "rotr n x = x div 2 ^ n + (x mod 2 ^ n) * 2 ^ (32 - n)"

definition shr :: "nat \<Rightarrow> nat \<Rightarrow> nat" where
  "shr n x = x div 2 ^ n"

definition sha_k :: "nat list" where
  "sha_k = [
  1116352408, 1899447441, 3049323471, 3921009573, 961987163, 1508970993, 2453635748, 2870763221,
  3624381080, 310598401, 607225278, 1426881987, 1925078388, 2162078206, 2614888103, 3248222580,
  3835390401, 4022224774, 264347078, 604807628, 770255983, 1249150122, 1555081692, 1996064986,
  2554220882, 2821834349, 2952996808, 3210313671, 3336571891, 3584528711, 113926993, 338241895,
  666307205, 773529912, 1294757372, 1396182291, 1695183700, 1986661051, 2177026350, 2456956037,
  2730485921, 2820302411, 3259730800, 3345764771, 3516065817, 3600352804, 4094571909, 275423344,
  430227734, 506948616, 659060556, 883997877, 958139571, 1322822218, 1537002063, 1747873779,
  1955562222, 2024104815, 2227730452, 2361852424, 2428436474, 2756734187, 3204031479, 3329325298]"

definition sha_h0 :: "nat list" where
  "sha_h0 = [1779033703, 3144134277, 1013904242, 2773480762,
             1359893119, 2600822924, 528734635, 1541459225]"

definition bsig0 :: "nat \<Rightarrow> nat" where
  "bsig0 x = rotr 2 x XOR rotr 13 x XOR rotr 22 x"

definition bsig1 :: "nat \<Rightarrow> nat" where
  "bsig1 x = rotr 6 x XOR rotr 11 x XOR rotr 25 x"

definition ssig0 :: "nat \<Rightarrow> nat" where
  "ssig0 x = rotr 7 x XOR rotr 18 x XOR shr 3 x"

definition ssig1 :: "nat \<Rightarrow> nat" where
  "ssig1 x = rotr 17 x XOR rotr 19 x XOR shr 10 x"

definition ch :: "nat \<Rightarrow> nat \<Rightarrow> nat \<Rightarrow> nat" where
  "ch x y z = (x AND y) XOR ((4294967295 - x) AND z)"

definition maj :: "nat \<Rightarrow> nat \<Rightarrow> nat \<Rightarrow> nat" where
  "maj x y z = (x AND y) XOR (x AND z) XOR (y AND z)"

definition t1 :: "nat \<Rightarrow> nat \<Rightarrow> nat \<Rightarrow> nat \<Rightarrow> nat \<Rightarrow> nat \<Rightarrow> nat" where
  "t1 h e f g k w = add32 (add32 (add32 (add32 h (bsig1 e)) (ch e f g)) k) w"

definition t2 :: "nat \<Rightarrow> nat \<Rightarrow> nat \<Rightarrow> nat" where
  "t2 a b c = add32 (bsig0 a) (maj a b c)"

text \<open>One round on the working variables \<open>[a, b, c, d, e, f, g, h]\<close>.\<close>

definition shuffle :: "nat \<Rightarrow> nat \<Rightarrow> nat list \<Rightarrow> nat list" where
  "shuffle x y st =
     [add32 x y, st ! 0, st ! 1, st ! 2, add32 (st ! 3) x, st ! 4, st ! 5, st ! 6]"

definition sha_round :: "nat \<Rightarrow> nat \<Rightarrow> nat list \<Rightarrow> nat list" where
  "sha_round k w st =
     shuffle (t1 (st ! 7) (st ! 4) (st ! 5) (st ! 6) k w) (t2 (st ! 0) (st ! 1) (st ! 2)) st"

fun rounds :: "nat list \<Rightarrow> nat list \<Rightarrow> nat list \<Rightarrow> nat list" where
  "rounds (k # ks) (w # ws) st = rounds ks ws (sha_round k w st)"
| "rounds ks ws st = st"

text \<open>The message schedule; \<open>rv\<close> holds the words so far, the latest first.\<close>

definition next_w :: "nat list \<Rightarrow> nat" where
  "next_w rv = add32 (add32 (add32 (ssig1 (rv ! 1)) (rv ! 6)) (ssig0 (rv ! 14))) (rv ! 15)"

fun schedule :: "'a list \<Rightarrow> nat list \<Rightarrow> nat list" where
  "schedule [] rv = rev rv"
| "schedule (k # ks) rv = schedule ks (next_w rv # rv)"

fun be32s :: "nat list \<Rightarrow> nat list" where
  "be32s (a # b # c # d # r) = (((a * 256 + b) * 256 + c) * 256 + d) # be32s r"
| "be32s r = []"

definition compress :: "nat list \<Rightarrow> nat list \<Rightarrow> nat list" where
  "compress st blk =
     map2 add32 st (rounds sha_k (schedule (drop 16 sha_k) (rev (be32s blk))) st)"

text \<open>The padded message cut into 64-byte blocks (the first argument bounds the count).\<close>

fun blocks :: "'a list \<Rightarrow> nat list \<Rightarrow> nat list list" where
  "blocks fuel [] = []"
| "blocks [] xs = []"
| "blocks (u # fuel) xs = take 64 xs # blocks fuel (drop 64 xs)"

definition be64 :: "nat \<Rightarrow> nat list" where
  "be64 n = map (\<lambda>i. (n div 256 ^ i) mod 256) [7, 6, 5, 4, 3, 2, 1, 0]"

definition pad :: "nat list \<Rightarrow> nat list" where
  "pad m = m @ [128] @ replicate ((119 - length m mod 64) mod 64) 0 @ be64 (8 * length m)"

definition hex32 :: "nat \<Rightarrow> string" where
  "hex32 w = map (\<lambda>i. digit_char ((w div 16 ^ i) mod 16)) [7, 6, 5, 4, 3, 2, 1, 0]"

definition sha256_digest :: "nat list \<Rightarrow> string" where
  "sha256_digest m = concat (map hex32 (foldl compress sha_h0 (blocks (pad m) (pad m))))"

definition sha256_hexdigest :: "string \<Rightarrow> string" where
  "sha256_hexdigest s = sha256_digest (encode s)"

section \<open>\<^verbatim>\<open>main.py\<close>: the pipeline\<close>

text \<open>
  A sample is the dictionary \<^verbatim>\<open>generate_sample\<close> builds: a timestamp text, two integer
  readings and the pressure pair. The code reads it with \<^verbatim>\<open>sample[k]\<close> in the analyzers
  and with \<^verbatim>\<open>.get(k, default)\<close> in the ledger builder, so each key may be absent
  (\<open>None\<close>).
\<close>

record sample =
  timestamp :: "string option"
  frecuencia :: "int option"
  presion :: "int list option"
  oxigeno :: "int option"

subsection \<open>\<^verbatim>\<open>BiometricGenerator\<close>\<close>

definition sample_count :: nat where
  "sample_count = 60"

text \<open>
  A pipe end, as the generator sees it: what has been sent through it and whether it
  has been closed. Which sends raise is the environment's choice: \<open>broken\<close> holds the
  pairs (iteration, position of the pipe in \<^verbatim>\<open>pipes\<close>) whose \<^verbatim>\<open>send\<close> raises because the
  reader is gone. \<open>gen i\<close> is the sample \<^verbatim>\<open>generate_sample\<close> returns in iteration \<open>i\<close>
  (it reads the clock and the random generator).
\<close>

record 'a pipe =
  sent :: "'a list"
  closed :: bool

text \<open>
  \<^verbatim>\<open>for pipe_conn in pipes: pipe_conn.send(sample)\<close>; the result says whether every send
  returned. The pipes before a send that raises keep what they were sent.
\<close>

fun send_all :: "(nat \<times> nat) set \<Rightarrow> nat \<Rightarrow> 'a \<Rightarrow> nat \<Rightarrow> 'a pipe list \<Rightarrow> 'a pipe list \<times> bool" where
  "send_all broken i s j [] = ([], True)"
| "send_all broken i s j (p # ps) =
     (if (i, j) \<in> broken then (p # ps, False)
      else case send_all broken i s (Suc j) ps of
             (ps', ok) \<Rightarrow> (p\<lparr>sent := sent p @ [s]\<rparr> # ps', ok))"

text \<open>
  \<^verbatim>\<open>for i in range(self.sample_count)\<close>, inside the one \<^verbatim>\<open>try\<close> of \<^verbatim>\<open>run\<close>: an exception
  leaves the loop.
\<close>

fun emit :: "(nat \<times> nat) set \<Rightarrow> (nat \<Rightarrow> 'a) \<Rightarrow> nat list \<Rightarrow> 'a pipe list \<Rightarrow> 'a pipe list \<times> bool" where
  "emit broken gen [] ps = (ps, True)"
| "emit broken gen (i # is) ps =
     (case send_all broken i (gen i) 0 ps of
        (ps', True) \<Rightarrow> emit broken gen is ps'
      | (ps', False) \<Rightarrow> (ps', False))"

text \<open>\<^verbatim>\<open>run\<close>: the loop, then \<^verbatim>\<open>finally\<close> closes every pipe.\<close>

definition generator_run :: "(nat \<times> nat) set \<Rightarrow> (nat \<Rightarrow> 'a) \<Rightarrow> 'a pipe list \<Rightarrow> 'a pipe list" where
  "generator_run broken gen pipes =
     map (\<lambda>p. p\<lparr>closed := True\<rparr>) (fst (emit broken gen [0..<sample_count] pipes))"

subsection \<open>\<^verbatim>\<open>BiometricAnalyzer\<close>\<close>

text \<open>
  The window holds pairs of a \<^verbatim>\<open>datetime\<close> and a \<^verbatim>\<open>float\<close>. A \<^verbatim>\<open>datetime\<close> is the number
  of seconds it stands for (the format has no fraction of a second), and
  \<^verbatim>\<open>datetime.strptime(_, "%Y-%m-%dT%H:%M:%S")\<close> is the parameter \<open>strptime\<close>, \<open>None\<close> where
  it raises \<^verbatim>\<open>ValueError\<close>. Floats are real numbers here.
\<close>

record analyzer =
  signal_type :: string
  window_data :: "(int \<times> real) list"
  window_duration :: int

definition BiometricAnalyzer :: "string \<Rightarrow> analyzer" where
  "BiometricAnalyzer st = \<lparr>signal_type = st, window_data = [], window_duration = 30\<rparr>"

definition extract_signal_value :: "analyzer \<Rightarrow> sample \<Rightarrow> pyerror + real" where
  "extract_signal_value self s =
     (if signal_type self = ''frecuencia'' then
        (case frecuencia s of None \<Rightarrow> Inl KeyError | Some f \<Rightarrow> Inr (of_int f))
      else if signal_type self = ''presion'' then
        (case presion s of None \<Rightarrow> Inl KeyError
         | Some [] \<Rightarrow> Inl IndexError
         | Some (sistolica # _) \<Rightarrow> Inr (of_int sistolica))
      else if signal_type self = ''oxigeno'' then
        (case oxigeno s of None \<Rightarrow> Inl KeyError | Some x \<Rightarrow> Inr (of_int x))
      else Inl ValueError)"

text \<open>The \<^verbatim>\<open>while self.window_data\<close> loop of \<^verbatim>\<open>update_window\<close>.\<close>

fun evict :: "int \<Rightarrow> int \<Rightarrow> (int \<times> real) list \<Rightarrow> (int \<times> real) list" where
  "evict duration current_time [] = []"
| "evict duration current_time ((sample_time, v) # w) =
     (if current_time - sample_time > duration then evict duration current_time w
      else (sample_time, v) # w)"

definition update_window :: "(string \<Rightarrow> int option) \<Rightarrow> analyzer \<Rightarrow> sample \<Rightarrow> pyerror + analyzer" where
  "update_window strptime self s =
     (case timestamp s of None \<Rightarrow> Inl KeyError
      | Some text \<Rightarrow>
     (case strptime text of None \<Rightarrow> Inl ValueError
      | Some ts \<Rightarrow>
     (case extract_signal_value self s of Inl e \<Rightarrow> Inl e
      | Inr v \<Rightarrow>
        Inr (self\<lparr>window_data :=
               evict (window_duration self) ts (window_data self @ [(ts, v)])\<rparr>))))"

definition calculate_statistics :: "analyzer \<Rightarrow> real \<times> real" where
  "calculate_statistics self =
     (if window_data self = [] then (0, 0)
      else
        let vals = map snd (window_data self);
            n = length vals;
            mean = sum_list vals / real n;
            std_dev = (if n > 1
                       then sqrt (sum_list (map (\<lambda>x. (x - mean) ^ 2) vals) / real (n - 1))
                       else 0)
        in (mean, std_dev))"

text \<open>Feeding an analyzer a sequence of samples; an exception ends the analyzer.\<close>

fun feed :: "(string \<Rightarrow> int option) \<Rightarrow> analyzer \<Rightarrow> sample list \<Rightarrow> pyerror + analyzer" where
  "feed strptime self [] = Inr self"
| "feed strptime self (s # ss) =
     (case update_window strptime self s of Inl e \<Rightarrow> Inl e
      | Inr self' \<Rightarrow> feed strptime self' ss)"

subsection \<open>\<^verbatim>\<open>BlockchainVerifier\<close>: the ledger builder\<close>

text \<open>
  What an analyzer puts on its queue (\<^verbatim>\<open>BiometricAnalyzer.run\<close> builds it with these five
  keys; \<^verbatim>\<open>r_original_data\<close> is \<^verbatim>\<open>result.get("original_data")\<close>), and what \<^verbatim>\<open>run\<close>
  keeps of it per channel. In an entry \<open>original_data = None\<close> is a dictionary without
  that key, \<open>Some None\<close> the value \<^verbatim>\<open>None\<close>.
\<close>

record result =
  r_tipo :: string
  r_timestamp :: string
  r_media :: pyval
  r_desv :: pyval
  r_original_data :: "sample option"

record entry =
  media :: pyval
  desv :: pyval
  original_data :: "sample option option"

type_synonym block = "(string \<times> pyval) list"

record builder =
  blockchain :: "block list"
  pending_results :: "(string \<times> (string \<times> entry) list) list"
  blocks_created :: nat

definition BlockchainVerifier :: builder where
  "BlockchainVerifier = \<lparr>blockchain = [], pending_results = [], blocks_created = 0\<rparr>"

text \<open>
  \<^verbatim>\<open>for result in results.values(): if "original_data" in result: ...; break\<close>
\<close>

fun find_original_data :: "(string \<times> entry) list \<Rightarrow> sample option" where
  "find_original_data [] = None"
| "find_original_data ((tipo, r) # rs) =
     (case original_data r of Some od \<Rightarrow> od | None \<Rightarrow> find_original_data rs)"

text \<open>An empty dictionary is false in a condition.\<close>

definition sample_empty :: "sample \<Rightarrow> bool" where
  "sample_empty s =
     (timestamp s = None \<and> frecuencia s = None \<and> presion s = None \<and> oxigeno s = None)"

definition is_valid_data :: "string \<Rightarrow> (string \<times> entry) list \<Rightarrow> bool" where
  "is_valid_data ts results =
     (case find_original_data results of
        None \<Rightarrow> True
      | Some od \<Rightarrow>
          if sample_empty od then True
          else
            let frec = (case frecuencia od of None \<Rightarrow> 0 | Some f \<Rightarrow> f);
                oxi = (case oxigeno od of None \<Rightarrow> 0 | Some x \<Rightarrow> x);
                pres = (case presion od of None \<Rightarrow> [0, 0] | Some p \<Rightarrow> p);
                presion_sistolica = (case pres of [] \<Rightarrow> 0 | x # _ \<Rightarrow> x);
                alert0 = False;
                alert1 = (if frec \<ge> 200 then True else alert0);
                alert2 = (if \<not> (90 \<le> oxi \<and> oxi \<le> 100) then True else alert1);
                alert3 = (if presion_sistolica \<ge> 200 then True else alert2)
            in alert3)"

text \<open>
  \<^verbatim>\<open>prev_hash + datos_str + timestamp\<close> raises \<^verbatim>\<open>TypeError\<close> unless both ends are text.
\<close>

definition hash_input :: "block \<Rightarrow> pyerror + string" where
  "hash_input block_data =
     (let prev_hash = (case dict_get block_data ''prev_hash'' of None \<Rightarrow> PStr [] | Some v \<Rightarrow> v)
      in case dict_get block_data ''datos'' of None \<Rightarrow> Inl KeyError
         | Some datos \<Rightarrow>
        (let datos_str = py_str datos
         in case dict_get block_data ''timestamp'' of None \<Rightarrow> Inl KeyError
            | Some ts \<Rightarrow>
           (case prev_hash of
              PStr p \<Rightarrow> (case ts of PStr t \<Rightarrow> Inr (p @ datos_str @ t) | _ \<Rightarrow> Inl TypeError)
            | _ \<Rightarrow> Inl TypeError)))"

definition calculate_hash :: "block \<Rightarrow> pyerror + string" where
  "calculate_hash block_data =
     (case hash_input block_data of Inl e \<Rightarrow> Inl e | Inr s \<Rightarrow> Inr (sha256_hexdigest s))"

text \<open>\<^verbatim>\<open>for tipo, result in results.items(): clean_results[tipo] = {...}\<close>\<close>

definition clean_results :: "(string \<times> entry) list \<Rightarrow> (string \<times> pyval) list" where
  "clean_results results =
     foldl (\<lambda>acc tr. dict_set acc (fst tr)
                        (PDict [(''media'', media (snd tr)), (''desv'', desv (snd tr))]))
           [] results"

definition create_block :: "block list \<Rightarrow> string \<Rightarrow> (string \<times> entry) list \<Rightarrow> pyerror + block" where
  "create_block chain ts results =
     (case (if chain = [] then Inr (PStr [])
            else (case dict_get (last chain) ''hash'' of None \<Rightarrow> Inl KeyError
                  | Some h \<Rightarrow> Inr h)) of
        Inl e \<Rightarrow> Inl e
      | Inr prev_hash \<Rightarrow>
          let alert = is_valid_data ts results;
              block = [(''timestamp'', PStr ts),
                       (''datos'', PDict (clean_results results)),
                       (''alerta'', PBool alert),
                       (''prev_hash'', prev_hash)]
          in case calculate_hash block of Inl e \<Rightarrow> Inl e
             | Inr h \<Rightarrow> Inr (dict_set block ''hash'' (PStr h)))"

text \<open>
  The body of the \<^verbatim>\<open>try\<close> in \<^verbatim>\<open>run\<close> for one poll of one queue. \<open>None\<close> is a poll that
  raised (the timeout); any exception is caught, reported, and the loop goes on with
  what had been stored by then.
\<close>

definition receive :: "builder \<Rightarrow> result option \<Rightarrow> builder" where
  "receive self polled =
     (case polled of None \<Rightarrow> self
      | Some r \<Rightarrow>
          let ts = r_timestamp r;
              tipo = r_tipo r;
              pending = (if \<not> dict_contains (pending_results self) ts
                         then dict_set (pending_results self) ts []
                         else pending_results self);
              tick = dict_set (case dict_get pending ts of None \<Rightarrow> [] | Some t \<Rightarrow> t) tipo
                       \<lparr>media = r_media r, desv = r_desv r,
                        original_data = Some (r_original_data r)\<rparr>;
              self1 = self\<lparr>pending_results := dict_set pending ts tick\<rparr>
          in if length tick = 3 then
               (case create_block (blockchain self1) ts tick of
                  Inl e \<Rightarrow> self1
                | Inr block \<Rightarrow>
                    self1\<lparr>blockchain := blockchain self1 @ [block],
                          blocks_created := blocks_created self1 + 1,
                          pending_results := dict_del (pending_results self1) ts\<rparr>)
             else self1)"

definition expected_blocks :: nat where
  "expected_blocks = 60"

text \<open>
  \<^verbatim>\<open>while blocks_created < expected_blocks: for queue in result_queues: ...\<close>. Each
  element of \<open>polls\<close> is one pass of the \<^verbatim>\<open>for\<close> loop: what each queue's \<^verbatim>\<open>get\<close> gave, in
  the order of \<^verbatim>\<open>result_queues\<close>. The result is the state after these passes (the loop
  itself runs until the count is reached).
\<close>

fun run :: "builder \<Rightarrow> result option list list \<Rightarrow> builder" where
  "run self [] = self"
| "run self (pass # polls) =
     (if blocks_created self < expected_blocks then run (foldl receive self pass) polls
      else self)"

section \<open>\<^verbatim>\<open>verificar_cadena.py\<close>: the verifier\<close>

definition vc_calculate_hash :: "block \<Rightarrow> pyerror + string" where
  "vc_calculate_hash block =
     (let prev_hash = (case dict_get block ''prev_hash'' of None \<Rightarrow> PStr [] | Some v \<Rightarrow> v)
      in case dict_get block ''datos'' of None \<Rightarrow> Inl KeyError
         | Some datos \<Rightarrow>
        (let datos_str = py_str datos
         in case dict_get block ''timestamp'' of None \<Rightarrow> Inl KeyError
            | Some ts \<Rightarrow>
           (case prev_hash of
              PStr p \<Rightarrow> (case ts of PStr t \<Rightarrow> Inr (sha256_hexdigest (p @ datos_str @ t))
                          | _ \<Rightarrow> Inl TypeError)
            | _ \<Rightarrow> Inl TypeError)))"

datatype verror =
    MissingField string
  | WrongPrevHash string pyval
  | WrongHash string pyval
  | MissingDataField string
  | DataFieldNotDict string
  | MissingSubfields string

definition required_fields :: "string list" where
  "required_fields = [''timestamp'', ''datos'', ''alerta'', ''prev_hash'', ''hash'']"

definition required_data_fields :: "string list" where
  "required_data_fields = [''frecuencia'', ''presion'', ''oxigeno'']"

fun starts_with :: "'a list \<Rightarrow> 'a list \<Rightarrow> bool" where
  "starts_with s [] = True"
| "starts_with [] (c # cs) = False"
| "starts_with (x # s) (c # cs) = (x = c \<and> starts_with s cs)"

fun substring_of :: "'a list \<Rightarrow> 'a list \<Rightarrow> bool" where
  "substring_of k [] = (k = [])"
| "substring_of k (x # s) = (starts_with (x # s) k \<or> substring_of k s)"

text \<open>
  \<^verbatim>\<open>field in datos\<close> for a text \<^verbatim>\<open>field\<close>: a key test on a dictionary, a membership
  test on a list, a substring test on text, \<^verbatim>\<open>TypeError\<close> on the rest. Then
  \<^verbatim>\<open>datos[field]\<close>, which only a dictionary answers for a text index.
\<close>

fun py_in :: "string \<Rightarrow> pyval \<Rightarrow> pyerror + bool" where
  "py_in k (PDict d) = Inr (dict_contains d k)"
| "py_in k (PList l) = Inr (PStr k \<in> set l)"
| "py_in k (PStr s) = Inr (substring_of k s)"
| "py_in k v = Inl TypeError"

fun py_getitem :: "pyval \<Rightarrow> string \<Rightarrow> pyerror + pyval" where
  "py_getitem (PDict d) k = (case dict_get d k of None \<Rightarrow> Inl KeyError | Some v \<Rightarrow> Inr v)"
| "py_getitem v k = Inl TypeError"

definition check_data_field :: "pyval \<Rightarrow> string \<Rightarrow> pyerror + verror list" where
  "check_data_field datos field =
     (case py_in field datos of Inl e \<Rightarrow> Inl e
      | Inr False \<Rightarrow> Inr [MissingDataField field]
      | Inr True \<Rightarrow>
         (case py_getitem datos field of Inl e \<Rightarrow> Inl e
          | Inr (PDict sub) \<Rightarrow>
              Inr (if \<not> dict_contains sub ''media'' \<or> \<not> dict_contains sub ''desv''
                   then [MissingSubfields field] else [])
          | Inr _ \<Rightarrow> Inr [DataFieldNotDict field]))"

fun check_data_fields :: "pyval \<Rightarrow> string list \<Rightarrow> verror list \<Rightarrow> pyerror + verror list" where
  "check_data_fields datos [] errors = Inr errors"
| "check_data_fields datos (field # fs) errors =
     (case check_data_field datos field of Inl e \<Rightarrow> Inl e
      | Inr es \<Rightarrow> check_data_fields datos fs (errors @ es))"

definition verify_block :: "nat \<Rightarrow> block \<Rightarrow> string \<Rightarrow> pyerror + bool \<times> verror list" where
  "verify_block index block expected_prev =
     (let errors = map MissingField (filter (\<lambda>f. \<not> dict_contains block f) required_fields)
      in if errors \<noteq> [] then Inr (False, errors)
         else
          (case dict_get block ''prev_hash'' of None \<Rightarrow> Inl KeyError
           | Some ph \<Rightarrow>
          (let errors1 = (if ph \<noteq> PStr expected_prev
                          then errors @ [WrongPrevHash expected_prev ph] else errors)
           in case vc_calculate_hash block of Inl e \<Rightarrow> Inl e
              | Inr calculated_hash \<Rightarrow>
             (case dict_get block ''hash'' of None \<Rightarrow> Inl KeyError
              | Some h \<Rightarrow>
             (let errors2 = (if h \<noteq> PStr calculated_hash
                             then errors1 @ [WrongHash calculated_hash h] else errors1)
              in case (if dict_contains block ''datos''
                       then (case dict_get block ''datos'' of None \<Rightarrow> Inl KeyError
                             | Some datos \<Rightarrow>
                                 check_data_fields datos required_data_fields errors2)
                       else Inr errors2) of
                   Inl e \<Rightarrow> Inl e
                 | Inr errors3 \<Rightarrow> Inr (errors3 = [], errors3))))))"

record corrupted =
  c_index :: nat
  c_hash :: pyval
  c_errors :: "verror list"

text \<open>
  The loop state of \<^verbatim>\<open>verify_blockchain\<close>: its two local variables and
  \<^verbatim>\<open>self.corrupted_blocks\<close>.
\<close>

record vstate =
  is_valid :: bool
  expected_prev_hash :: string
  corrupted_blocks :: "corrupted list"

text \<open>\<^verbatim>\<open>x[:16]\<close>, in the two \<^verbatim>\<open>print\<close> calls, raises unless \<^verbatim>\<open>x\<close> is text or a list.\<close>

fun sliceable :: "pyval \<Rightarrow> bool" where
  "sliceable (PStr s) = True"
| "sliceable (PList l) = True"
| "sliceable v = False"

text \<open>
  One iteration. In the valid branch the stored hash is the text \<^verbatim>\<open>verify_block\<close> has
  just compared with the recomputed one. The elements of the ledger are dictionaries, as
  the annotation of \<^verbatim>\<open>verify_block\<close> has them (on an element that is not one, a list for
  instance, \<^verbatim>\<open>block.get\<close> raises).
\<close>

definition verify_step :: "vstate \<Rightarrow> nat \<Rightarrow> block \<Rightarrow> pyerror + vstate" where
  "verify_step st i block =
     (case verify_block i block (expected_prev_hash st) of Inl e \<Rightarrow> Inl e
      | Inr (block_valid, errors) \<Rightarrow>
          if block_valid then
            (case dict_get block ''hash'' of None \<Rightarrow> Inl KeyError
             | Some (PStr h) \<Rightarrow> Inr (st\<lparr>expected_prev_hash := h\<rparr>)
             | Some _ \<Rightarrow> Inl TypeError)
          else
            (let h = (case dict_get block ''hash'' of None \<Rightarrow> PStr ''N/A'' | Some v \<Rightarrow> v)
             in if \<not> sliceable h then Inl TypeError
                else Inr (st\<lparr>corrupted_blocks :=
                                corrupted_blocks st @ [\<lparr>c_index = i, c_hash = h, c_errors = errors\<rparr>],
                              is_valid := False\<rparr>)))"

fun verify_loop :: "vstate \<Rightarrow> nat \<Rightarrow> block list \<Rightarrow> pyerror + vstate" where
  "verify_loop st i [] = Inr st"
| "verify_loop st i (block # rest) =
     (case verify_step st i block of Inl e \<Rightarrow> Inl e
      | Inr st' \<Rightarrow> verify_loop st' (Suc i) rest)"

definition verify_blockchain :: "block list \<Rightarrow> pyerror + vstate" where
  "verify_blockchain chain =
     (if chain = []
      then Inr \<lparr>is_valid = False, expected_prev_hash = [], corrupted_blocks = []\<rparr>
      else verify_loop \<lparr>is_valid = True, expected_prev_hash = [], corrupted_blocks = []\<rparr> 0 chain)"

section \<open>Example data\<close>

text \<open>
  A reading with every value in range, one with a heart-rate spike, and a tick as \<^verbatim>\<open>run\<close>
  assembles it from three analyzer results for one reading: the statistics below with
  the reading embedded in each entry. The two ticks hold the same bindings; they differ
  in the order in which the results arrived.
\<close>

definition reading_at :: "string \<Rightarrow> sample" where
  "reading_at ts = \<lparr>timestamp = Some ts, frecuencia = Some 100, presion = Some [120, 80],
                     oxigeno = Some 95\<rparr>"

definition reading_spike :: sample where
  "reading_spike = \<lparr>timestamp = Some ''2025-01-01T00:00:00'', frecuencia = Some 210,
                     presion = Some [120, 80], oxigeno = Some 95\<rparr>"

definition stat_entry :: "int \<Rightarrow> sample \<Rightarrow> entry" where
  "stat_entry m od = \<lparr>media = PFloat m 0, desv = PFloat 0 0, original_data = Some (Some od)\<rparr>"

definition tick_fpo :: "sample \<Rightarrow> (string \<times> entry) list" where
  "tick_fpo od = [(''frecuencia'', stat_entry 100 od), (''presion'', stat_entry 120 od),
                  (''oxigeno'', stat_entry 95 od)]"

definition tick_pof :: "sample \<Rightarrow> (string \<times> entry) list" where
  "tick_pof od = [(''presion'', stat_entry 120 od), (''oxigeno'', stat_entry 95 od),
                  (''frecuencia'', stat_entry 100 od)]"

definition datos_fpo :: pyval where
  "datos_fpo = PDict [(''frecuencia'', PDict [(''media'', PFloat 100 0), (''desv'', PFloat 0 0)]),
                      (''presion'', PDict [(''media'', PFloat 120 0), (''desv'', PFloat 0 0)]),
                      (''oxigeno'', PDict [(''media'', PFloat 95 0), (''desv'', PFloat 0 0)])]"

definition datos_pof :: pyval where
  "datos_pof = PDict [(''presion'', PDict [(''media'', PFloat 120 0), (''desv'', PFloat 0 0)]),
                      (''oxigeno'', PDict [(''media'', PFloat 95 0), (''desv'', PFloat 0 0)]),
                      (''frecuencia'', PDict [(''media'', PFloat 100 0), (''desv'', PFloat 0 0)])]"

text \<open>
  The first two blocks of a ledger for such readings one second apart (the first with
  the flag given), and what the three queues deliver for a reading in one pass of the
  polling loop.
\<close>

definition genesis :: "bool \<Rightarrow> block" where
  "genesis alert =
     [(''timestamp'', PStr ''2025-01-01T00:00:00''),
      (''datos'', datos_fpo),
      (''alerta'', PBool alert),
      (''prev_hash'', PStr []),
      (''hash'', PStr ''9cabaf3177eb733a8b727fe70ea7d4a62e193484ca7e4632fd757987369338be'')]"

definition second :: block where
  "second =
     [(''timestamp'', PStr ''2025-01-01T00:00:01''),
      (''datos'', datos_fpo),
      (''alerta'', PBool False),
      (''prev_hash'', PStr ''9cabaf3177eb733a8b727fe70ea7d4a62e193484ca7e4632fd757987369338be''),
      (''hash'', PStr ''7d9c930e0b6dda224abc73879872a7a6cc11a720172b8e5226b3e30a1e99dc9a'')]"

definition queue_result :: "string \<Rightarrow> string \<Rightarrow> int \<Rightarrow> result" where
  "queue_result tipo ts m =
     \<lparr>r_tipo = tipo, r_timestamp = ts, r_media = PFloat m 0, r_desv = PFloat 0 0,
      r_original_data = Some (reading_at ts)\<rparr>"

definition pass :: "string \<Rightarrow> result option list" where
  "pass ts = [Some (queue_result ''frecuencia'' ts 100), Some (queue_result ''presion'' ts 120),
              Some (queue_result ''oxigeno'' ts 95)]"

section \<open>The ledger invariant\<close>

text \<open>
  \<open>chain_linked prev chain\<close>: the first block's \<^verbatim>\<open>prev_hash\<close> is the text \<open>prev\<close>, every
  block's \<^verbatim>\<open>hash\<close> is a text, and every later block's \<^verbatim>\<open>prev_hash\<close> is the \<^verbatim>\<open>hash\<close> of the
  block before it. \<open>chain_tip prev chain\<close> is the hash the next block has to link to.
\<close>

fun chain_linked :: "string \<Rightarrow> block list \<Rightarrow> bool" where
  "chain_linked prev [] = True"
| "chain_linked prev (b # bs) =
     (dict_get b ''prev_hash'' = Some (PStr prev) \<and>
      (case dict_get b ''hash'' of Some (PStr h) \<Rightarrow> chain_linked h bs | _ \<Rightarrow> False))"

fun chain_tip :: "string \<Rightarrow> block list \<Rightarrow> string" where
  "chain_tip prev [] = prev"
| "chain_tip prev (b # bs) =
     (case dict_get b ''hash'' of Some (PStr h) \<Rightarrow> chain_tip h bs | _ \<Rightarrow> chain_tip prev bs)"

text \<open>
  The instants \<^verbatim>\<open>strptime\<close> gives for three timestamps, in seconds from the first.
\<close>

definition seconds_of :: "string \<Rightarrow> int option" where
  "seconds_of = map_of [(''2025-01-01T00:00:00'', 0), (''2025-01-01T00:00:01'', 1),
                        (''2025-01-01T00:00:31'', 31)]"

text \<open>
  The first block with its stored hash overwritten, and a block written by some other
  program: a channel more than the three, and a heart-rate entry whose \<^verbatim>\<open>media\<close> and
  \<^verbatim>\<open>desv\<close> are not numbers. Its \<^verbatim>\<open>hash\<close> is the SHA-256 of its own hash input.
\<close>

definition tampered :: block where
  "tampered =
     [(''timestamp'', PStr ''2025-01-01T00:00:00''),
      (''datos'', datos_fpo),
      (''alerta'', PBool False),
      (''prev_hash'', PStr []),
      (''hash'', PStr ''0000000000000000000000000000000000000000000000000000000000000000'')]"



text \<open>A pipe nothing has been sent through yet.\<close>

definition new_pipe :: "nat pipe" where
  "new_pipe = \<lparr>sent = [], closed = False\<rparr>"

text \<open>
  What \<^verbatim>\<open>create_block\<close> hands to \<^verbatim>\<open>calculate_hash\<close> for the first block of a ledger: the
  block without its \<^verbatim>\<open>hash\<close> field.
\<close>

definition unhashed :: "pyval \<Rightarrow> block" where
  "unhashed datos =
     [(''timestamp'', PStr ''2025-01-01T00:00:00''),
      (''datos'', datos),
      (''alerta'', PBool False),
      (''prev_hash'', PStr [])]"

text \<open>
  The same reading when the first poll of the first queue times out: what the passes of
  the polling loop receive, and the first block that results.
\<close>

definition late_first_queue :: "result option list list" where
  "late_first_queue =
     [[None, Some (queue_result ''presion'' ''2025-01-01T00:00:00'' 120),
       Some (queue_result ''oxigeno'' ''2025-01-01T00:00:00'' 95)],
      [Some (queue_result ''frecuencia'' ''2025-01-01T00:00:00'' 100), None, None]]"

definition genesis_pof :: block where
  "genesis_pof =
     [(''timestamp'', PStr ''2025-01-01T00:00:00''),
      (''datos'', datos_pof),
      (''alerta'', PBool False),
      (''prev_hash'', PStr []),
      (''hash'', PStr ''4a2602a7a9d05de543d2725a753282e47f09d9f795692d1caca70f755ed4216a'')]"

section \<open>The serialization, channel by channel\<close>

text \<open>
  The text \<^verbatim>\<open>str(datos)\<close> is to have when the channels of a tick are listed in the order
  in which they were inserted: one entry per channel, in the order of the list, joined
  by a comma and a space, inside braces.
\<close>

definition entry_text :: "string \<times> entry \<Rightarrow> string" where
  "entry_text tr =
     str_repr (fst tr) @ '': {'media': '' @ py_repr (media (snd tr)) @
     '', 'desv': '' @ py_repr (desv (snd tr)) @ ''}''"

definition tick_text :: "(string \<times> entry) list \<Rightarrow> string" where
  "tick_text results = ''{'' @ join '', '' (map entry_text results) @ ''}''"

section \<open>Properties\<close>

subsection \<open>Dictionaries\<close>

lemma dict_contains_iff: "dict_contains d k \<longleftrightarrow> (\<exists>v. dict_get d k = Some v)"
  by (simp add: dict_contains_def)

lemma dict_get_set_same: "dict_get (dict_set d k v) k = Some v"
  by (induction d) (auto simp: dict_get_def)

lemma dict_get_set_other: "k' \<noteq> k \<Longrightarrow> dict_get (dict_set d k v) k' = dict_get d k'"
  by (induction d) (auto simp: dict_get_def)

subsection \<open>Window statistics\<close>

text \<open>
  Claim C9. \<^verbatim>\<open>calculate_statistics\<close> returns \<open>(0, 0)\<close> on an empty window. On a window of
  \<open>n \<ge> 1\<close> values the first component is their arithmetic mean; the second is \<open>0\<close> when
  \<open>n = 1\<close> and, when \<open>n > 1\<close>, the square root of the sum of squared deviations from
  the mean divided by \<open>n - 1\<close>. (Floats are read as real numbers.)
\<close>

theorem calculate_statistics_spec:
  "(window_data a = [] \<longrightarrow> calculate_statistics a = (0, 0)) \<and>
   (window_data a \<noteq> [] \<longrightarrow>
      fst (calculate_statistics a) =
        (\<Sum>(t, v) \<leftarrow> window_data a. v) / real (length (window_data a))) \<and>
   (length (window_data a) = 1 \<longrightarrow> snd (calculate_statistics a) = 0) \<and>
   (length (window_data a) > 1 \<longrightarrow>
      snd (calculate_statistics a) =
        sqrt ((\<Sum>(t, v) \<leftarrow> window_data a. (v - fst (calculate_statistics a)) ^ 2)
              / real (length (window_data a) - 1)))"
  by (auto simp: calculate_statistics_def Let_def case_prod_unfold comp_def)

theorem calculate_statistics_witness:
  "calculate_statistics (BiometricAnalyzer ''oxigeno'') = (0, 0) \<and>
   calculate_statistics
     \<lparr>signal_type = ''oxigeno'', window_data = [(5, 97)], window_duration = 30\<rparr> = (97, 0) \<and>
   calculate_statistics
     \<lparr>signal_type = ''frecuencia'', window_data = [(0, 99), (1, 100), (2, 101)],
      window_duration = 30\<rparr> = (100, 1)"
  using calculate_statistics_spec [of "BiometricAnalyzer ''oxigeno''"]
    calculate_statistics_spec
      [of "\<lparr>signal_type = ''oxigeno'', window_data = [(5, 97)], window_duration = 30\<rparr>"]
    calculate_statistics_spec
      [of "\<lparr>signal_type = ''frecuencia'', window_data = [(0, 99), (1, 100), (2, 101)],
           window_duration = 30\<rparr>"]
  by (simp add: BiometricAnalyzer_def prod_eq_iff)

subsection \<open>Evaluating the hash\<close>

lemma replicate_numeral: "replicate (numeral k) x = x # replicate (pred_numeral k) x"
  by (simp add: numeral_eq_Suc)

lemmas sha_eval = sha256_hexdigest_def sha256_digest_def encode_def pad_def be64_def compress_def
  sha_k_def sha_h0_def hex32_def digit_char_def sha_round_def shuffle_def next_w_def
  replicate_numeral t1_def t2_def bsig0_def bsig1_def ssig0_def ssig1_def ch_def maj_def
  add32_def rotr_def shr_def

lemmas repr_eval = str_repr_def escape_char_def float_repr_def strip_zeros.simps show_nat.simps
  show_int_def show_exp_def digit_char_def hex_byte_def Let_def replicate_numeral

text \<open>The test vector of FIPS 180-4 for the one-block message.\<close>

lemma sha256_abc:
  "sha256_hexdigest ''abc'' = ''ba7816bf8f01cfea414140de5dae2223b00361a396177a9cb410ff61f20015ad''"
  by (simp add: sha_eval)

lemma sha256_genesis:
  "sha256_hexdigest ''{'frecuencia': {'media': 100.0, 'desv': 0.0}, 'presion': {'media': 120.0, 'desv': 0.0}, 'oxigeno': {'media': 95.0, 'desv': 0.0}}2025-01-01T00:00:00'' = ''9cabaf3177eb733a8b727fe70ea7d4a62e193484ca7e4632fd757987369338be''"
  by (simp add: sha_eval)

lemma sha256_second:
  "sha256_hexdigest ''9cabaf3177eb733a8b727fe70ea7d4a62e193484ca7e4632fd757987369338be{'frecuencia': {'media': 100.0, 'desv': 0.0}, 'presion': {'media': 120.0, 'desv': 0.0}, 'oxigeno': {'media': 95.0, 'desv': 0.0}}2025-01-01T00:00:01'' = ''7d9c930e0b6dda224abc73879872a7a6cc11a720172b8e5226b3e30a1e99dc9a''"
  by (simp add: sha_eval)

lemma py_str_datos_fpo:
  "py_str datos_fpo = ''{'frecuencia': {'media': 100.0, 'desv': 0.0}, 'presion': {'media': 120.0, 'desv': 0.0}, 'oxigeno': {'media': 95.0, 'desv': 0.0}}''"
  by (simp add: datos_fpo_def repr_eval)

lemma py_str_datos_pof:
  "py_str datos_pof = ''{'presion': {'media': 120.0, 'desv': 0.0}, 'oxigeno': {'media': 95.0, 'desv': 0.0}, 'frecuencia': {'media': 100.0, 'desv': 0.0}}''"
  by (simp add: datos_pof_def repr_eval)

lemma clean_results_tick_fpo: "PDict (clean_results (tick_fpo od)) = datos_fpo"
  by (simp add: clean_results_def tick_fpo_def stat_entry_def datos_fpo_def)

lemma clean_results_tick_pof: "PDict (clean_results (tick_pof od)) = datos_pof"
  by (simp add: clean_results_def tick_pof_def stat_entry_def datos_pof_def)

lemma is_valid_data_reading_at: "is_valid_data ts' (tick_fpo (reading_at ts)) = False"
  by (simp add: is_valid_data_def tick_fpo_def stat_entry_def reading_at_def sample_empty_def)

lemma is_valid_data_spike: "is_valid_data ts (tick_fpo reading_spike) = True"
  by (simp add: is_valid_data_def tick_fpo_def stat_entry_def reading_spike_def sample_empty_def)

lemma create_block_genesis:
  "create_block [] ''2025-01-01T00:00:00'' (tick_fpo (reading_at ''2025-01-01T00:00:00'')) =
     Inr (genesis False)"
  by (simp add: create_block_def clean_results_tick_fpo calculate_hash_def hash_input_def
      dict_get_def py_str_datos_fpo sha256_genesis genesis_def is_valid_data_reading_at)

lemma create_block_genesis_spike:
  "create_block [] ''2025-01-01T00:00:00'' (tick_fpo reading_spike) = Inr (genesis True)"
  by (simp add: create_block_def clean_results_tick_fpo calculate_hash_def hash_input_def
      dict_get_def py_str_datos_fpo sha256_genesis genesis_def is_valid_data_spike)

lemma create_block_second:
  "create_block [genesis False] ''2025-01-01T00:00:01''
     (tick_fpo (reading_at ''2025-01-01T00:00:01'')) = Inr second"
proof -
  have "dict_get (genesis False) ''hash'' =
      Some (PStr ''9cabaf3177eb733a8b727fe70ea7d4a62e193484ca7e4632fd757987369338be'')"
    by (simp add: genesis_def dict_get_def)
  then show ?thesis
    by (simp add: create_block_def clean_results_tick_fpo calculate_hash_def hash_input_def
        dict_get_def py_str_datos_fpo sha256_second second_def is_valid_data_reading_at)
qed

subsection \<open>The stored hash\<close>

lemma vc_calculate_hash_eq: "vc_calculate_hash b = calculate_hash b"
  by (simp add: vc_calculate_hash_def calculate_hash_def hash_input_def Let_def
      split: option.splits pyval.splits)

lemma calculate_hash_ignores_hash: "calculate_hash (dict_set b ''hash'' v) = calculate_hash b"
  by (simp add: calculate_hash_def hash_input_def dict_get_set_other Let_def
      split: option.splits)

text \<open>
  Claim C1. For every block that \<^verbatim>\<open>create_block\<close> returns, the \<^verbatim>\<open>calculate_hash\<close> of
  \<^verbatim>\<open>verificar_cadena.py\<close>, applied to that block, returns the text stored in the block's
  \<^verbatim>\<open>hash\<close> field. (\<^verbatim>\<open>json.dump\<close> followed by \<^verbatim>\<open>json.load\<close> gives back the same dictionary,
  key order included, so the persisted block is the block.)
\<close>

theorem stored_hash_recomputed:
  assumes "create_block chain ts results = Inr b"
  shows "\<exists>h. dict_get b ''hash'' = Some (PStr h) \<and> vc_calculate_hash b = Inr h"
  using assms
  by (auto simp: create_block_def Let_def vc_calculate_hash_eq calculate_hash_ignores_hash
      dict_get_set_same simp del: dict_set.simps split: sum.splits if_splits option.splits)

theorem stored_hash_recomputed_witness:
  "create_block [] ''2025-01-01T00:00:00'' (tick_fpo (reading_at ''2025-01-01T00:00:00'')) =
     Inr (genesis False) \<and>
   dict_get (genesis False) ''hash'' =
     Some (PStr ''9cabaf3177eb733a8b727fe70ea7d4a62e193484ca7e4632fd757987369338be'') \<and>
   vc_calculate_hash (genesis False) =
     Inr ''9cabaf3177eb733a8b727fe70ea7d4a62e193484ca7e4632fd757987369338be''"
  using stored_hash_recomputed [OF create_block_genesis]
  by (auto simp: create_block_genesis genesis_def dict_get_def)

subsection \<open>The alert flag\<close>

lemma find_original_data_embedded:
  assumes "results \<noteq> []" and "\<forall>tr \<in> set results. original_data (snd tr) = Some (Some od)"
  shows "find_original_data results = Some od"
  using assms by (cases results) auto

text \<open>
  Claim C3. For a tick whose records all embed the reading \<open>od\<close>, with heart rate \<open>f\<close>,
  oxygen \<open>x\<close> and systolic pressure \<open>sistolica\<close>, the value of \<^verbatim>\<open>is_valid_data\<close>, and the
  \<^verbatim>\<open>alerta\<close> field of the block \<^verbatim>\<open>create_block\<close> builds, is true exactly when \<open>f \<ge> 200\<close>
  or \<open>x\<close> is outside \<open>[90, 100]\<close> or \<open>sistolica \<ge> 200\<close>. The \<^verbatim>\<open>media\<close> and \<^verbatim>\<open>desv\<close> of
  the records are arbitrary: they play no part.
\<close>

theorem alert_iff_raw_thresholds:
  assumes "results \<noteq> []"
      and "\<forall>tr \<in> set results. original_data (snd tr) = Some (Some od)"
      and "frecuencia od = Some f" and "oxigeno od = Some x"
      and "presion od = Some (sistolica # rest)"
      and "create_block chain ts results = Inr b"
  shows "dict_get b ''alerta'' =
           Some (PBool (f \<ge> 200 \<or> x < 90 \<or> 100 < x \<or> sistolica \<ge> 200)) \<and>
         is_valid_data ts results = (f \<ge> 200 \<or> x < 90 \<or> 100 < x \<or> sistolica \<ge> 200)"
proof -
  have fo: "find_original_data results = Some od"
    using assms(1,2) by (rule find_original_data_embedded)
  have ne: "\<not> sample_empty od"
    using assms(3) by (simp add: sample_empty_def)
  have v: "is_valid_data ts results = (f \<ge> 200 \<or> x < 90 \<or> 100 < x \<or> sistolica \<ge> 200)"
    using assms(3-5) by (auto simp: is_valid_data_def fo ne Let_def)
  have "dict_get b ''alerta'' = Some (PBool (is_valid_data ts results))"
    using assms(6)
    by (auto simp: create_block_def Let_def dict_get_set_other dict_get_def
        split: sum.splits if_splits option.splits)
  with v show ?thesis by simp
qed

text \<open>The window means are in range (100, 120, 95); the raw heart rate is 210.\<close>

theorem alert_iff_raw_thresholds_witness:
  "dict_get (genesis True) ''alerta'' = Some (PBool True) \<and>
   is_valid_data ''2025-01-01T00:00:00'' (tick_fpo reading_spike) = True \<and>
   map (\<lambda>tr. media (snd tr)) (tick_fpo reading_spike) = [PFloat 100 0, PFloat 120 0, PFloat 95 0]"
  using alert_iff_raw_thresholds [of "tick_fpo reading_spike" reading_spike 210 95 120 "[80]"
      "[]" "''2025-01-01T00:00:00''" "genesis True"] create_block_genesis_spike
  by (simp add: tick_fpo_def stat_entry_def reading_spike_def)

subsection \<open>The verifier and the alert flag\<close>

lemma vc_calculate_hash_genesis:
  "vc_calculate_hash (genesis a) =
     Inr ''9cabaf3177eb733a8b727fe70ea7d4a62e193484ca7e4632fd757987369338be''"
  by (simp add: vc_calculate_hash_def genesis_def dict_get_def py_str_datos_fpo sha256_genesis)

lemma vc_calculate_hash_second:
  "vc_calculate_hash second =
     Inr ''7d9c930e0b6dda224abc73879872a7a6cc11a720172b8e5226b3e30a1e99dc9a''"
  by (simp add: vc_calculate_hash_def second_def dict_get_def py_str_datos_fpo sha256_second)

lemma check_data_fields_datos_fpo:
  "check_data_fields datos_fpo required_data_fields errors = Inr errors"
  by (simp add: datos_fpo_def required_data_fields_def check_data_field_def dict_contains_def
      dict_get_def)

lemma verify_block_genesis: "verify_block i (genesis a) [] = Inr (True, [])"
  unfolding verify_block_def vc_calculate_hash_genesis
  by (simp add: required_fields_def dict_contains_def dict_get_def genesis_def
      check_data_fields_datos_fpo)

lemma verify_block_second:
  "verify_block i second ''9cabaf3177eb733a8b727fe70ea7d4a62e193484ca7e4632fd757987369338be'' =
     Inr (True, [])"
  unfolding verify_block_def vc_calculate_hash_second
  by (simp add: required_fields_def dict_contains_def dict_get_def second_def
      check_data_fields_datos_fpo)

text \<open>
  Claim C7. Two blocks with the same \<^verbatim>\<open>timestamp\<close>, \<^verbatim>\<open>datos\<close>, \<^verbatim>\<open>prev_hash\<close> and \<^verbatim>\<open>hash\<close>,
  both with an \<^verbatim>\<open>alerta\<close> field (of whatever value), get the same result from
  \<^verbatim>\<open>verify_block\<close> (verdict and error list), the same recomputed hash, and the same
  treatment by the loop of \<^verbatim>\<open>verify_blockchain\<close>.
\<close>

theorem verify_block_ignores_alerta:
  assumes "dict_get b1 ''timestamp'' = dict_get b2 ''timestamp''"
      and "dict_get b1 ''datos'' = dict_get b2 ''datos''"
      and "dict_get b1 ''prev_hash'' = dict_get b2 ''prev_hash''"
      and "dict_get b1 ''hash'' = dict_get b2 ''hash''"
      and "dict_contains b1 ''alerta''" and "dict_contains b2 ''alerta''"
  shows "verify_block i b1 expected = verify_block i b2 expected \<and>
         vc_calculate_hash b1 = vc_calculate_hash b2 \<and>
         verify_step st i b1 = verify_step st i b2"
proof -
  have h: "vc_calculate_hash b1 = vc_calculate_hash b2"
    unfolding vc_calculate_hash_def assms(1) assms(2) assms(3) by (rule refl)
  have c: "dict_contains b1 k = dict_contains b2 k" if "k \<in> set required_fields" for k
  proof -
    have "k = ''timestamp'' \<or> k = ''datos'' \<or> k = ''alerta'' \<or> k = ''prev_hash'' \<or> k = ''hash''"
      using that by (simp add: required_fields_def)
    then show ?thesis
      using assms by (elim disjE) (simp_all add: dict_contains_def)
  qed
  have f: "filter (\<lambda>f. \<not> dict_contains b1 f) required_fields =
           filter (\<lambda>f. \<not> dict_contains b2 f) required_fields"
    by (rule filter_cong) (simp_all add: c)
  have d: "dict_contains b1 ''datos'' = dict_contains b2 ''datos''"
    by (rule c) (simp add: required_fields_def)
  have v: "verify_block i b1 e = verify_block i b2 e" for e
    unfolding verify_block_def f h d assms(2) assms(3) assms(4) by (rule refl)
  show ?thesis
    unfolding verify_step_def v assms(4) using h by simp
qed

theorem verify_block_ignores_alerta_witness:
  "verify_block 0 (genesis True) [] = Inr (True, []) \<and>
   verify_block 0 (genesis False) [] = Inr (True, []) \<and>
   vc_calculate_hash (genesis True) = vc_calculate_hash (genesis False) \<and>
   dict_get (genesis True) ''alerta'' \<noteq> dict_get (genesis False) ''alerta''"
  using verify_block_ignores_alerta [of "genesis True" "genesis False" 0 "[]"]
    verify_block_genesis [of 0 False]
  by (simp add: genesis_def dict_get_def dict_contains_def)

subsection \<open>The ledger is linked\<close>

lemma chain_linked_snoc:
  "chain_linked p (c @ [b]) \<longleftrightarrow>
     chain_linked p c \<and> dict_get b ''prev_hash'' = Some (PStr (chain_tip p c)) \<and>
     (\<exists>h. dict_get b ''hash'' = Some (PStr h))"
  by (induction c arbitrary: p) (auto split: option.splits pyval.splits)

lemma chain_linked_last:
  "chain_linked p c \<Longrightarrow> c \<noteq> [] \<Longrightarrow> dict_get (last c) ''hash'' = Some (PStr (chain_tip p c))"
  by (induction c arbitrary: p) (auto split: option.splits pyval.splits)

lemma create_block_fields:
  assumes "create_block chain ts results = Inr b"
  shows "\<exists>p h. dict_get b ''prev_hash'' = Some (PStr p) \<and> dict_get b ''hash'' = Some (PStr h) \<and>
               (if chain = [] then p = [] else dict_get (last chain) ''hash'' = Some (PStr p))"
  using assms
  by (auto simp: create_block_def Let_def calculate_hash_def hash_input_def dict_get_def
      split: sum.splits if_splits option.splits pyval.splits)

lemma create_block_linked:
  assumes "chain_linked [] chain" and "create_block chain ts results = Inr b"
  shows "chain_linked [] (chain @ [b])"
proof -
  obtain p h where p: "dict_get b ''prev_hash'' = Some (PStr p)"
    and h: "dict_get b ''hash'' = Some (PStr h)"
    and l: "if chain = [] then p = [] else dict_get (last chain) ''hash'' = Some (PStr p)"
    using create_block_fields [OF assms(2)] by blast
  have "p = chain_tip [] chain"
  proof (cases "chain = []")
    case True
    with l show ?thesis by simp
  next
    case False
    with l chain_linked_last [OF assms(1) False] show ?thesis by simp
  qed
  with p h assms(1) show ?thesis by (simp add: chain_linked_snoc)
qed

lemma create_block_succeeds:
  assumes "chain_linked [] chain"
  shows "\<exists>b. create_block chain ts results = Inr b"
proof (cases "chain = []")
  case True
  then show ?thesis
    by (simp add: create_block_def Let_def calculate_hash_def hash_input_def dict_get_def)
next
  case False
  with chain_linked_last [OF assms False] show ?thesis
    by (simp add: create_block_def Let_def calculate_hash_def hash_input_def dict_get_def)
qed

lemma receive_linked:
  "chain_linked [] (blockchain self) \<Longrightarrow> chain_linked [] (blockchain (receive self polled))"
  by (auto simp: receive_def Let_def create_block_linked split: option.splits sum.splits)

lemma foldl_receive_linked:
  "chain_linked [] (blockchain self) \<Longrightarrow> chain_linked [] (blockchain (foldl receive self ps))"
  by (induction ps arbitrary: self) (simp_all add: receive_linked)

lemma run_linked:
  "chain_linked [] (blockchain self) \<Longrightarrow> chain_linked [] (blockchain (run self polls))"
  by (induction polls arbitrary: self) (simp_all add: foldl_receive_linked)

text \<open>
  Claim C2. Whatever the queues deliver, in whatever order and with whatever timeouts,
  the ledger \<^verbatim>\<open>run\<close> has built so far is linked: its first block has \<^verbatim>\<open>prev_hash == ""\<close> and
  every later block's \<^verbatim>\<open>prev_hash\<close> is the \<^verbatim>\<open>hash\<close> of the block before it. Every step of the
  loop (\<open>receive\<close>, which appends at most one block) preserves this.
\<close>

theorem ledger_chain_linked:
  "chain_linked [] (blockchain (run BlockchainVerifier polls)) \<and>
   (chain_linked [] (blockchain self) \<longrightarrow> chain_linked [] (blockchain (receive self polled)))"
  by (simp add: run_linked receive_linked BlockchainVerifier_def)

lemma receive_pass:
  assumes "pending_results self = []"
      and "create_block (blockchain self) ts (tick_fpo (reading_at ts)) = Inr b"
  shows "foldl receive self (pass ts) =
           self\<lparr>blockchain := blockchain self @ [b],
                blocks_created := blocks_created self + 1\<rparr>"
  using assms
  by (simp add: pass_def queue_result_def receive_def dict_contains_def dict_get_def
      dict_del_def tick_fpo_def stat_entry_def)

lemma run_two_passes:
  "run BlockchainVerifier [pass ''2025-01-01T00:00:00'', pass ''2025-01-01T00:00:01''] =
     \<lparr>blockchain = [genesis False, second], pending_results = [], blocks_created = 2\<rparr>"
  by (simp add: BlockchainVerifier_def expected_blocks_def receive_pass create_block_genesis
      create_block_second)

theorem ledger_chain_linked_witness:
  "blockchain (run BlockchainVerifier [pass ''2025-01-01T00:00:00'', pass ''2025-01-01T00:00:01''])
     = [genesis False, second] \<and>
   chain_linked [] [genesis False, second] \<and>
   chain_linked [] [genesis False] \<and>
   chain_linked [] (blockchain (receive
      \<lparr>blockchain = [genesis False], pending_results = [], blocks_created = 1\<rparr>
      (Some (queue_result ''presion'' ''2025-01-01T00:00:01'' 120))))"
  using ledger_chain_linked [of "[pass ''2025-01-01T00:00:00'', pass ''2025-01-01T00:00:01'']"
      "\<lparr>blockchain = [genesis False], pending_results = [], blocks_created = 1\<rparr>"
      "Some (queue_result ''presion'' ''2025-01-01T00:00:01'' 120)"]
  unfolding run_two_passes
  by (simp add: genesis_def second_def dict_get_def)

subsection \<open>The sliding window\<close>

lemma evict_filter:
  "sorted (map fst w) \<Longrightarrow> evict d now w = filter (\<lambda>(t, v). now - t \<le> d) w"
proof (induction w)
  case Nil
  then show ?case by simp
next
  case (Cons e w)
  obtain t v where e: "e = (t, v)" by (cases e)
  show ?case
  proof (cases "now - t > d")
    case True
    with Cons e show ?thesis by simp
  next
    case False
    have "\<forall>x \<in> set w. now - fst x \<le> d"
      using Cons.prems False e by auto
    then have "filter (\<lambda>(t, v). now - t \<le> d) w = w"
      by (auto simp: filter_id_conv)
    with False e show ?thesis by simp
  qed
qed

lemma extract_signal_value_cong:
  "signal_type a = signal_type b \<Longrightarrow> extract_signal_value a s = extract_signal_value b s"
  by (simp add: extract_signal_value_def)

lemma feed_window:
  assumes "map timestamp samples = map Some texts"
      and "map strptime texts = map Some secs"
      and "map (extract_signal_value a) samples = map Inr vals"
      and "sorted (map fst (window_data a) @ secs)"
  shows "\<exists>a'. feed strptime a samples = Inr a' \<and> signal_type a' = signal_type a \<and>
              window_duration a' = window_duration a \<and>
              window_data a' =
                (if samples = [] then window_data a
                 else filter (\<lambda>(t, v). last secs - t \<le> window_duration a)
                        (window_data a @ zip secs vals))"
  using assms
proof (induction samples arbitrary: a texts secs vals)
  case Nil
  then show ?case by simp
next
  case (Cons s ss)
  from Cons.prems(1) obtain x xs where texts: "texts = x # xs"
    and sx: "timestamp s = Some x" and ssx: "map timestamp ss = map Some xs"
    by (cases texts) auto
  from Cons.prems(2) texts obtain t ts where secs: "secs = t # ts"
    and xt: "strptime x = Some t" and xts: "map strptime xs = map Some ts"
    by (cases secs) auto
  from Cons.prems(3) obtain v vs where vals: "vals = v # vs"
    and sv: "extract_signal_value a s = Inr v"
    and ssv: "map (extract_signal_value a) ss = map Inr vs"
    by (cases vals) auto
  let ?d = "window_duration a"
  let ?w = "window_data a"
  define a1 where "a1 = a\<lparr>window_data := evict ?d t (?w @ [(t, v)])\<rparr>"
  have upd: "update_window strptime a s = Inr a1"
    by (simp add: update_window_def sx xt sv a1_def)
  have srt: "sorted (map fst ?w @ t # ts)"
    using Cons.prems(4) secs by simp
  then have srt1: "sorted (map fst (?w @ [(t, v)]))"
    by (auto simp: sorted_append)
  have w1: "window_data a1 = filter (\<lambda>(t', v). t - t' \<le> ?d) (?w @ [(t, v)])"
    unfolding a1_def using evict_filter [OF srt1] by simp
  have st1: "signal_type a1 = signal_type a" and d1: "window_duration a1 = ?d"
    by (simp_all add: a1_def)
  have "extract_signal_value a1 = extract_signal_value a"
    using extract_signal_value_cong [OF st1] by (rule ext)
  then have ssv1: "map (extract_signal_value a1) ss = map Inr vs"
    using ssv by simp
  have "sorted (map fst (filter (\<lambda>(t', v). t - t' \<le> ?d) (?w @ [(t, v)])))"
    using srt1 by (rule sorted_filter)
  moreover have "\<forall>y \<in> set (?w @ [(t, v)]). \<forall>z \<in> set ts. fst y \<le> z"
    using srt by (auto simp: sorted_append)
  moreover have "sorted ts"
    using srt by (auto simp: sorted_append)
  ultimately have srt2: "sorted (map fst (window_data a1) @ ts)"
    unfolding w1 by (auto simp: sorted_append)
  from Cons.IH [OF ssx xts ssv1 srt2] obtain a' where
    fd: "feed strptime a1 ss = Inr a'" and st': "signal_type a' = signal_type a1"
    and d': "window_duration a' = window_duration a1"
    and w': "window_data a' =
               (if ss = [] then window_data a1
                else filter (\<lambda>(t', v). last ts - t' \<le> window_duration a1)
                       (window_data a1 @ zip ts vs))"
    by blast
  have res: "window_data a' =
      filter (\<lambda>(t', v). last secs - t' \<le> ?d) (?w @ zip secs vals)"
  proof (cases "ss = []")
    case True
    then have "ts = []" "vs = []"
      using xts ssx ssv by auto
    with True w' w1 secs vals show ?thesis by simp
  next
    case False
    then have tsne: "ts \<noteq> []"
      using xts ssx by auto
    have le: "t \<le> last ts"
      using srt tsne by (auto simp: sorted_append)
    define PL where "PL = (\<lambda>(t', v :: real). last ts - t' \<le> ?d)"
    define PT where "PT = (\<lambda>(t', v :: real). t - t' \<le> ?d)"
    have imp: "PL y \<Longrightarrow> PT y" for y
      using le by (auto simp: PL_def PT_def)
    have ff: "filter PL (filter PT ys) = filter PL ys" for ys
      using imp by (auto intro!: filter_cong)
    have "window_data a' = filter PL (window_data a1 @ zip ts vs)"
      using w' False d1 by (simp add: PL_def)
    also have "\<dots> = filter PL (filter PT (?w @ [(t, v)])) @ filter PL (zip ts vs)"
      using w1 by (simp add: PT_def)
    also have "\<dots> = filter PL (?w @ [(t, v)]) @ filter PL (zip ts vs)"
      by (simp only: ff)
    also have "\<dots> = filter PL (?w @ zip secs vals)"
      by (simp add: secs vals)
    finally show ?thesis
      using tsne by (simp add: PL_def secs)
  qed
  show ?case
    using upd fd st' st1 d' d1 res by simp
qed

text \<open>
  Claim C8. An analyzer starts with an empty window and is fed samples whose timestamps
  parse to the instants \<open>secs\<close>, in non-decreasing order, and whose channel values are
  \<open>vals\<close>. Then every \<^verbatim>\<open>update_window\<close> returns, and after the last one, with timestamp
  \<open>T = last secs\<close>, the window holds exactly the entries \<open>(t, v)\<close> received so far with
  \<open>T - t \<le> 30\<close>, in order of arrival. (The statement applies to every prefix of a run,
  so to the window after each reading.)
\<close>

theorem sliding_window_contents:
  assumes "map timestamp samples = map Some texts"
      and "map strptime texts = map Some secs"
      and "map (extract_signal_value (BiometricAnalyzer st)) samples = map Inr vals"
      and "sorted secs" and "samples \<noteq> []"
  shows "\<exists>a. feed strptime (BiometricAnalyzer st) samples = Inr a \<and>
             window_data a = filter (\<lambda>(t, v). last secs - t \<le> 30) (zip secs vals)"
proof -
  have "sorted (map fst (window_data (BiometricAnalyzer st)) @ secs)"
    using assms(4) by (simp add: BiometricAnalyzer_def)
  from feed_window [OF assms(1-3) this] assms(5) show ?thesis
    by (auto simp: BiometricAnalyzer_def)
qed

text \<open>Readings at seconds 0, 1 and 31: the first is evicted, the second (30 s old) stays.\<close>

theorem sliding_window_contents_witness:
  "feed seconds_of (BiometricAnalyzer ''frecuencia'')
     [reading_at ''2025-01-01T00:00:00'', reading_spike\<lparr>timestamp := Some ''2025-01-01T00:00:01''\<rparr>,
      reading_at ''2025-01-01T00:00:31''] =
   Inr \<lparr>signal_type = ''frecuencia'', window_data = [(1, 210), (31, 100)], window_duration = 30\<rparr>"
  using sliding_window_contents [of
      "[reading_at ''2025-01-01T00:00:00'', reading_spike\<lparr>timestamp := Some ''2025-01-01T00:00:01''\<rparr>,
        reading_at ''2025-01-01T00:00:31'']"
      "[''2025-01-01T00:00:00'', ''2025-01-01T00:00:01'', ''2025-01-01T00:00:31'']"
      seconds_of "[0, 1, 31]" "''frecuencia''" "[100, 210, 100]"]
  by (simp add: seconds_of_def reading_at_def reading_spike_def BiometricAnalyzer_def
      extract_signal_value_def update_window_def)

subsection \<open>What the verifier does after a failing block\<close>

lemma verify_block_tampered:
  "verify_block i tampered [] =
     Inr (False, [WrongHash ''9cabaf3177eb733a8b727fe70ea7d4a62e193484ca7e4632fd757987369338be''
        (PStr ''0000000000000000000000000000000000000000000000000000000000000000'')])"
proof -
  have "vc_calculate_hash tampered =
      Inr ''9cabaf3177eb733a8b727fe70ea7d4a62e193484ca7e4632fd757987369338be''"
    by (simp add: vc_calculate_hash_def tampered_def dict_get_def py_str_datos_fpo sha256_genesis)
  then show ?thesis
    unfolding verify_block_def
    by (simp add: required_fields_def dict_contains_def dict_get_def tampered_def
        check_data_fields_datos_fpo)
qed

lemma verify_block_second_unlinked:
  "verify_block i second [] =
     Inr (False, [WrongPrevHash []
        (PStr ''9cabaf3177eb733a8b727fe70ea7d4a62e193484ca7e4632fd757987369338be'')])"
  unfolding verify_block_def vc_calculate_hash_second
  by (simp add: required_fields_def dict_contains_def dict_get_def second_def
      check_data_fields_datos_fpo)

text \<open>
  Claim C4: when a block fails its checks the verifier goes on to the next block, and
  the next block's chain link is checked against the stored hash of the failing block
  (the docstring of \<^verbatim>\<open>verify_block\<close> calls \<^verbatim>\<open>expected_prev_hash\<close> the expected hash of the
  previous block). The code goes on, but not with that value: \<^verbatim>\<open>verify_blockchain\<close>
  assigns \<^verbatim>\<open>expected_prev_hash\<close> only when the block is valid. In the ledger below the
  first block's stored hash has been overwritten (with 64 zeros) and the second block is
  intact. The second block is checked against \<^verbatim>\<open>""\<close>, the value from before the failing
  block, and reported with \<open>WrongPrevHash []\<close>; \<open>expected_prev_hash\<close> is still \<open>[]\<close>
  at the end.
\<close>

theorem expected_prev_hash_counterexample:
  "verify_blockchain [tampered, second] =
     Inr \<lparr>is_valid = False, expected_prev_hash = [],
          corrupted_blocks =
            [\<lparr>c_index = 0,
              c_hash = PStr ''0000000000000000000000000000000000000000000000000000000000000000'',
              c_errors = [WrongHash
                 ''9cabaf3177eb733a8b727fe70ea7d4a62e193484ca7e4632fd757987369338be''
                 (PStr ''0000000000000000000000000000000000000000000000000000000000000000'')]\<rparr>,
             \<lparr>c_index = 1,
              c_hash = PStr ''7d9c930e0b6dda224abc73879872a7a6cc11a720172b8e5226b3e30a1e99dc9a'',
              c_errors = [WrongPrevHash []
                 (PStr ''9cabaf3177eb733a8b727fe70ea7d4a62e193484ca7e4632fd757987369338be'')]\<rparr>]\<rparr>"
proof -
  have h0: "dict_get tampered ''hash'' =
      Some (PStr ''0000000000000000000000000000000000000000000000000000000000000000'')"
    by (simp add: tampered_def dict_get_def)
  have h1: "dict_get second ''hash'' =
      Some (PStr ''7d9c930e0b6dda224abc73879872a7a6cc11a720172b8e5226b3e30a1e99dc9a'')"
    by (simp add: second_def dict_get_def)
  show ?thesis
    by (simp add: verify_blockchain_def verify_step_def verify_block_tampered
        verify_block_second_unlinked h0 h1)
qed

text \<open>
  The step of the loop on a failing block whose \<^verbatim>\<open>hash\<close> field is absent, a text or a
  list (so that printing \<^verbatim>\<open>hash[:16]\<close> does not raise): the block is recorded with its
  errors, the verdict becomes false, and \<open>expected_prev_hash\<close> is left as it was.
\<close>

lemma failing_block_step:
  assumes "verify_block i b (expected_prev_hash st) = Inr (False, errors)"
      and "sliceable (case dict_get b ''hash'' of None \<Rightarrow> PStr ''N/A'' | Some v \<Rightarrow> v)"
  shows "\<exists>st'. verify_step st i b = Inr st' \<and>
               expected_prev_hash st' = expected_prev_hash st \<and>
               \<not> is_valid st' \<and>
               corrupted_blocks st' = corrupted_blocks st @
                 [\<lparr>c_index = i,
                   c_hash = (case dict_get b ''hash'' of None \<Rightarrow> PStr ''N/A'' | Some v \<Rightarrow> v),
                   c_errors = errors\<rparr>] \<and>
               verify_loop st i (b # rest) = verify_loop st' (Suc i) rest"
  using assms by (simp add: verify_step_def Let_def)

subsection \<open>datos\<close>

lemma check_data_fields_Inr:
  "check_data_fields datos fs errs = Inr es \<Longrightarrow>
     \<exists>ess. length ess = length fs \<and> es = errs @ concat ess \<and>
           (\<forall>k < length fs. check_data_field datos (fs ! k) = Inr (ess ! k))"
proof (induction fs arbitrary: errs)
  case Nil
  then show ?case by simp
next
  case (Cons f fs)
  from Cons.prems obtain e1 where e1: "check_data_field datos f = Inr e1"
    and rest: "check_data_fields datos fs (errs @ e1) = Inr es"
    by (auto split: sum.splits)
  from Cons.IH [OF rest] obtain ess where ess: "length ess = length fs"
    "es = (errs @ e1) @ concat ess"
    "\<forall>k < length fs. check_data_field datos (fs ! k) = Inr (ess ! k)"
    by blast
  have "\<forall>k < length (f # fs). check_data_field datos ((f # fs) ! k) = Inr ((e1 # ess) ! k)"
    using e1 ess(3) by (auto simp: nth_Cons split: nat.splits)
  with ess(1,2) show ?case
    by (intro exI [of _ "e1 # ess"]) simp
qed

lemma check_data_fields_Nil:
  assumes "check_data_fields datos fs errs = Inr []"
  shows "errs = [] \<and> (\<forall>f \<in> set fs. check_data_field datos f = Inr [])"
proof -
  from check_data_fields_Inr [OF assms] obtain ess where ess: "length ess = length fs"
    "[] = errs @ concat ess"
    "\<forall>k < length fs. check_data_field datos (fs ! k) = Inr (ess ! k)"
    by blast
  from ess(2) have "errs = []" and c: "\<forall>e \<in> set ess. e = []"
    by auto
  have "check_data_field datos f = Inr []" if "f \<in> set fs" for f
  proof -
    from that obtain k where k: "k < length fs" "fs ! k = f"
      by (auto simp: in_set_conv_nth)
    with ess(1) c have "ess ! k = []" by simp
    with ess(3) k show ?thesis by auto
  qed
  with \<open>errs = []\<close> show ?thesis by simp
qed


lemma verify_block_valid:
  assumes "verify_block i b e = Inr (True, errors)"
  shows "errors = [] \<and> dict_get b ''prev_hash'' = Some (PStr e) \<and>
         (\<exists>h. vc_calculate_hash b = Inr h \<and> dict_get b ''hash'' = Some (PStr h)) \<and>
         (\<exists>datos. dict_get b ''datos'' = Some datos \<and>
            check_data_fields datos required_data_fields [] = Inr [])"
proof -
  have nf: "filter (\<lambda>f. \<not> dict_contains b f) required_fields = []"
    using assms by (auto simp: verify_block_def Let_def split: if_splits)
  then have "\<forall>f \<in> set required_fields. dict_contains b f"
    by (simp only: filter_empty_conv) simp
  then have "dict_contains b ''datos''"
    by (simp add: required_fields_def)
  then obtain datos where datos: "dict_get b ''datos'' = Some datos"
    by (auto simp: dict_contains_def)
  from assms obtain ph h calc errs2 where
    ph: "dict_get b ''prev_hash'' = Some ph" and calc: "vc_calculate_hash b = Inr calc"
    and h: "dict_get b ''hash'' = Some h"
    and errs2: "errs2 = (if h \<noteq> PStr calc
                  then (if ph \<noteq> PStr e then [WrongPrevHash e ph] else []) @ [WrongHash calc h]
                  else (if ph \<noteq> PStr e then [WrongPrevHash e ph] else []))"
    and chk: "check_data_fields datos required_data_fields errs2 = Inr errors"
    and nil: "errors = []"
    unfolding verify_block_def nf
    by (auto simp: Let_def dict_contains_def datos split: if_splits option.splits sum.splits)
  from chk nil have "errs2 = []"
    using check_data_fields_Nil by blast
  with errs2 have "h = PStr calc" "ph = PStr e"
    by (auto split: if_splits)
  with ph calc h datos chk nil \<open>errs2 = []\<close> show ?thesis by simp
qed

lemma valid_block_advances_expected:
  assumes "verify_block i b (expected_prev_hash st) = Inr (True, errors)"
  shows "\<exists>h. dict_get b ''hash'' = Some (PStr h) \<and> vc_calculate_hash b = Inr h \<and>
             verify_step st i b = Inr (st\<lparr>expected_prev_hash := h\<rparr>)"
  using verify_block_valid [OF assms] assms by (auto simp: verify_step_def)

text \<open>
  So one failing block is enough for every block after it to be reported: each later
  block whose \<^verbatim>\<open>prev_hash\<close> is not the value \<open>expected_prev_hash\<close> had before the failing
  block (in a ledger built by \<^verbatim>\<open>run\<close> it is the hash of its own predecessor) is recorded
  as corrupted, and \<open>expected_prev_hash\<close> never moves again.
\<close>

lemma unlinked_block_invalid:
  assumes "dict_get b ''prev_hash'' = Some ph" and "ph \<noteq> PStr e"
      and "verify_block i b e = Inr (v, errors)"
  shows "\<not> v"
proof
  assume v
  with assms(3) have "verify_block i b e = Inr (True, errors)" by simp
  from verify_block_valid [OF this] assms(1,2) show False by simp
qed

lemma blocks_after_failure_reported:
  assumes "\<forall>b \<in> set rest. \<exists>ph. dict_get b ''prev_hash'' = Some ph \<and>
                                 ph \<noteq> PStr (expected_prev_hash st)"
      and "verify_loop st i rest = Inr st'"
  shows "expected_prev_hash st' = expected_prev_hash st \<and>
         map c_index (corrupted_blocks st') =
           map c_index (corrupted_blocks st) @ [i..<i + length rest]"
  using assms
proof (induction rest arbitrary: st i)
  case Nil
  then show ?case by simp
next
  case (Cons b rest)
  from Cons.prems(1) obtain ph where ph: "dict_get b ''prev_hash'' = Some ph"
    "ph \<noteq> PStr (expected_prev_hash st)"
    by auto
  from Cons.prems(2) obtain st1 where s1: "verify_step st i b = Inr st1"
    and l1: "verify_loop st1 (Suc i) rest = Inr st'"
    by (auto split: sum.splits)
  from s1 obtain v errors where vb: "verify_block i b (expected_prev_hash st) = Inr (v, errors)"
    by (auto simp: verify_step_def split: sum.splits)
  have nv: "\<not> v"
    using unlinked_block_invalid [OF ph vb] .
  from s1 vb nv have e1: "expected_prev_hash st1 = expected_prev_hash st"
    and c1: "map c_index (corrupted_blocks st1) = map c_index (corrupted_blocks st) @ [i]"
    by (auto simp: verify_step_def Let_def split: if_splits)
  have "\<forall>b \<in> set rest. \<exists>ph. dict_get b ''prev_hash'' = Some ph \<and>
                            ph \<noteq> PStr (expected_prev_hash st1)"
    using Cons.prems(1) e1 by simp
  from Cons.IH [OF this l1]
  have r: "expected_prev_hash st' = expected_prev_hash st1"
    "map c_index (corrupted_blocks st') =
       map c_index (corrupted_blocks st1) @ [Suc i..<Suc i + length rest]"
    by simp_all
  have u: "[i..<i + length (b # rest)] = i # [Suc i..<Suc i + length rest]"
    by (subst upt_conv_Cons) simp_all
  show ?case
    unfolding u using r e1 c1 by simp
qed






subsection \<open>The generator and a failing send\<close>

lemma send_all_ok:
  "\<forall>k < length ps. (i, j0 + k) \<notin> broken \<Longrightarrow>
     send_all broken i s j0 ps = (map (\<lambda>p. p\<lparr>sent := sent p @ [s]\<rparr>) ps, True)"
proof (induction ps arbitrary: j0)
  case Nil
  then show ?case by simp
next
  case (Cons p ps)
  have "(i, j0) \<notin> broken"
    using Cons.prems by force
  moreover have "\<forall>k < length ps. (i, Suc j0 + k) \<notin> broken"
    using Cons.prems by force
  ultimately show ?case
    using Cons.IH [of "Suc j0"] by simp
qed

lemma send_all_fails:
  "j0 \<le> j \<Longrightarrow> j < j0 + length ps \<Longrightarrow> (i, j) \<in> broken \<Longrightarrow>
   \<forall>k. j0 \<le> k \<and> k < j \<longrightarrow> (i, k) \<notin> broken \<Longrightarrow>
     send_all broken i s j0 ps =
       (map (\<lambda>p. p\<lparr>sent := sent p @ [s]\<rparr>) (take (j - j0) ps) @ drop (j - j0) ps, False)"
proof (induction ps arbitrary: j0)
  case Nil
  then show ?case by simp
next
  case (Cons p ps)
  show ?case
  proof (cases "j = j0")
    case True
    with Cons.prems show ?thesis by simp
  next
    case False
    with Cons.prems have lt: "j0 < j" by simp
    then have nb: "(i, j0) \<notin> broken"
      using Cons.prems(4) by simp
    have "send_all broken i s (Suc j0) ps =
        (map (\<lambda>p. p\<lparr>sent := sent p @ [s]\<rparr>) (take (j - Suc j0) ps) @ drop (j - Suc j0) ps, False)"
      using Cons.prems lt by (intro Cons.IH) auto
    moreover have "j - j0 = Suc (j - Suc j0)"
      using lt by simp
    ultimately show ?thesis
      using nb by simp
  qed
qed

lemma emit_fails:
  assumes "(i, j) \<in> broken" and "j < length ps" and "i < m"
      and "\<forall>k < j. (i, k) \<notin> broken"
      and "\<forall>i' k. n \<le> i' \<and> i' < i \<and> k < length ps \<longrightarrow> (i', k) \<notin> broken"
      and "n \<le> i"
  shows "emit broken gen [n..<m] ps =
           (map (\<lambda>p. p\<lparr>sent := sent p @ map gen [n..<Suc i]\<rparr>) (take j ps) @
            map (\<lambda>p. p\<lparr>sent := sent p @ map gen [n..<i]\<rparr>) (drop j ps), False)"
  using assms
proof (induction "i - n" arbitrary: n ps)
  case 0
  then have n: "n = i" by simp
  have up: "[i..<m] = i # [Suc i..<m]"
    using \<open>i < m\<close> by (rule upt_conv_Cons)
  have "send_all broken i (gen i) 0 ps =
      (map (\<lambda>p. p\<lparr>sent := sent p @ [gen i]\<rparr>) (take j ps) @ drop j ps, False)"
    using send_all_fails [of 0 j ps i broken "gen i"] 0 by simp
  then show ?case
    by (simp add: n up)
next
  case (Suc d)
  then have lt: "n < i" by simp
  then have up: "[n..<m] = n # [Suc n..<m]"
    using \<open>i < m\<close> by (intro upt_conv_Cons) simp
  let ?ps1 = "map (\<lambda>p. p\<lparr>sent := sent p @ [gen n]\<rparr>) ps"
  have s1: "send_all broken n (gen n) 0 ps = (?ps1, True)"
    using Suc.prems(5) lt by (intro send_all_ok) simp
  have ih: "emit broken gen [Suc n..<m] ?ps1 =
           (map (\<lambda>p. p\<lparr>sent := sent p @ map gen [Suc n..<Suc i]\<rparr>) (take j ?ps1) @
            map (\<lambda>p. p\<lparr>sent := sent p @ map gen [Suc n..<i]\<rparr>) (drop j ?ps1), False)"
    using Suc.hyps(2) Suc.prems lt by (intro Suc.hyps(1)) auto
  have u1: "[n..<Suc i] = n # [Suc n..<Suc i]"
    using lt by (intro upt_conv_Cons) simp
  have u2: "[n..<i] = n # [Suc n..<i]"
    using lt by (rule upt_conv_Cons)
  show ?case
    unfolding up
    by (simp only: emit.simps s1 prod.case bool.case ih)
       (simp add: take_map drop_map u1 u2 del: upt_Suc)
qed

lemma emit_ok:
  "\<forall>i' k. n \<le> i' \<and> i' < m \<and> k < length ps \<longrightarrow> (i', k) \<notin> broken \<Longrightarrow>
     emit broken gen [n..<m] ps = (map (\<lambda>p. p\<lparr>sent := sent p @ map gen [n..<m]\<rparr>) ps, True)"
proof (induction "m - n" arbitrary: n ps)
  case 0
  then show ?case by simp
next
  case (Suc d)
  then have lt: "n < m" by simp
  then have up: "[n..<m] = n # [Suc n..<m]"
    by (rule upt_conv_Cons)
  let ?ps1 = "map (\<lambda>p. p\<lparr>sent := sent p @ [gen n]\<rparr>) ps"
  have s1: "send_all broken n (gen n) 0 ps = (?ps1, True)"
    using Suc.prems lt by (intro send_all_ok) simp
  have ih: "emit broken gen [Suc n..<m] ?ps1 =
      (map (\<lambda>p. p\<lparr>sent := sent p @ map gen [Suc n..<m]\<rparr>) ?ps1, True)"
    using Suc.hyps(2) Suc.prems by (intro Suc.hyps(1)) auto
  show ?case
    by (subst up, simp only: emit.simps s1 prod.case bool.case ih) (simp add: up [symmetric] comp_def, simp add: up)
qed

text \<open>
  Claim C10, amended. If a send raises in iteration \<open>i\<close> at the pipe in position \<open>j\<close>
  (the first send to raise), the run ends there: the pipes before position \<open>j\<close> have
  been sent the readings of iterations \<open>0, \<dots>, i\<close>, the pipe at \<open>j\<close> and those after it
  the readings of iterations \<open>0, \<dots>, i - 1\<close>, no pipe is sent any later reading, and
  every pipe is closed.
\<close>

theorem failed_send_ends_run:
  assumes "(i, j) \<in> broken" and "i < sample_count" and "j < length pipes"
      and "\<forall>k < j. (i, k) \<notin> broken"
      and "\<forall>i' k. i' < i \<and> k < length pipes \<longrightarrow> (i', k) \<notin> broken"
  shows "generator_run broken gen pipes =
           map (\<lambda>p. p\<lparr>sent := sent p @ map gen [0..<Suc i], closed := True\<rparr>) (take j pipes) @
           map (\<lambda>p. p\<lparr>sent := sent p @ map gen [0..<i], closed := True\<rparr>) (drop j pipes)"
  using emit_fails [of i j broken pipes sample_count 0 gen] assms
  by (simp add: generator_run_def comp_def del: upt_Suc)

text \<open>Without a failing send every pipe is sent all the readings.\<close>

lemma generator_run_no_failure:
  assumes "\<forall>i k. i < sample_count \<and> k < length pipes \<longrightarrow> (i, k) \<notin> broken"
  shows "generator_run broken gen pipes =
           map (\<lambda>p. p\<lparr>sent := sent p @ map gen [0..<sample_count], closed := True\<rparr>) pipes"
  using emit_ok [of 0 sample_count pipes broken gen] assms
  by (simp add: generator_run_def comp_def)

text \<open>
  Claim C10 says that a failed send drops only that sink and the others go on receiving.
  Here the send to the first of three pipes raises in the second iteration (readings
  are named by their iteration): the other two pipes, whose readers are alive, are
  sent nothing after reading 0, although 58 more iterations were due.
\<close>

theorem failed_send_counterexample:
  "generator_run {(1, 0)} id [new_pipe, new_pipe, new_pipe] =
     [\<lparr>sent = [0], closed = True\<rparr>, \<lparr>sent = [0], closed = True\<rparr>, \<lparr>sent = [0], closed = True\<rparr>]"
proof -
  have "[0..<sample_count] = 0 # 1 # [2..<60]"
    by (simp add: sample_count_def upt_conv_Cons)
  then show ?thesis
    by (simp add: generator_run_def new_pipe_def)
qed

theorem failed_send_ends_run_witness:
  "generator_run {(1, 1)} id [new_pipe, new_pipe, new_pipe] =
     [\<lparr>sent = [0, 1], closed = True\<rparr>, \<lparr>sent = [0], closed = True\<rparr>, \<lparr>sent = [0], closed = True\<rparr>]"
  using failed_send_ends_run [of 1 1 "{(1, 1)}" "[new_pipe, new_pipe, new_pipe]" id]
  by (simp add: sample_count_def new_pipe_def)

subsection \<open>Key order in the hash input\<close>

lemma sha256_pof:
  "sha256_hexdigest ''{'presion': {'media': 120.0, 'desv': 0.0}, 'oxigeno': {'media': 95.0, 'desv': 0.0}, 'frecuencia': {'media': 100.0, 'desv': 0.0}}2025-01-01T00:00:00'' = ''4a2602a7a9d05de543d2725a753282e47f09d9f795692d1caca70f755ed4216a''"
  by (simp add: sha_eval)

lemma is_valid_data_tick_pof: "is_valid_data ts' (tick_pof (reading_at ts)) = False"
  by (simp add: is_valid_data_def tick_pof_def stat_entry_def reading_at_def sample_empty_def)

lemma create_block_genesis_pof:
  "create_block [] ''2025-01-01T00:00:00'' (tick_pof (reading_at ''2025-01-01T00:00:00'')) =
     Inr genesis_pof"
  by (simp add: create_block_def clean_results_tick_pof calculate_hash_def hash_input_def
      dict_get_def py_str_datos_pof sha256_pof genesis_pof_def is_valid_data_tick_pof)

lemma run_late_first_queue:
  "run BlockchainVerifier late_first_queue =
     \<lparr>blockchain = [genesis_pof], pending_results = [], blocks_created = 1\<rparr>"
  using create_block_genesis_pof
  by (simp add: late_first_queue_def BlockchainVerifier_def expected_blocks_def queue_result_def
      receive_def dict_contains_def dict_get_def dict_del_def tick_pof_def stat_entry_def
      Let_def)

lemma run_one_pass:
  "run BlockchainVerifier [pass ''2025-01-01T00:00:00''] =
     \<lparr>blockchain = [genesis False], pending_results = [], blocks_created = 1\<rparr>"
  by (simp add: BlockchainVerifier_def expected_blocks_def receive_pass create_block_genesis)

text \<open>
  Claim C5 says that two results maps with the same channel bindings give the same hash
  whatever the order in which the ledger builder received them. \<^verbatim>\<open>str(datos)\<close> lists the
  keys in insertion order, and \<^verbatim>\<open>create_block\<close> inserts them in the order of the tick.
  The two ticks below hold the same three bindings; one arrived as frecuencia, presion,
  oxigeno, the other as presion, oxigeno, frecuencia (the first poll of the first queue
  timed out). With the same \<^verbatim>\<open>prev_hash\<close> and timestamp their hashes differ, in the
  builder and in the verifier: \<^verbatim>\<open>run\<close> starts the ledger with a different block.
\<close>

theorem key_order_counterexample:
  "blockchain (run BlockchainVerifier [pass ''2025-01-01T00:00:00'']) = [genesis False] \<and>
   blockchain (run BlockchainVerifier late_first_queue) = [genesis_pof] \<and>
   set (tick_fpo (reading_at ''2025-01-01T00:00:00'')) =
     set (tick_pof (reading_at ''2025-01-01T00:00:00'')) \<and>
   calculate_hash (unhashed (PDict (clean_results (tick_fpo (reading_at ''2025-01-01T00:00:00''))))) =
     Inr ''9cabaf3177eb733a8b727fe70ea7d4a62e193484ca7e4632fd757987369338be'' \<and>
   calculate_hash (unhashed (PDict (clean_results (tick_pof (reading_at ''2025-01-01T00:00:00''))))) =
     Inr ''4a2602a7a9d05de543d2725a753282e47f09d9f795692d1caca70f755ed4216a'' \<and>
   vc_calculate_hash (unhashed (PDict (clean_results (tick_pof (reading_at ''2025-01-01T00:00:00''))))) =
     Inr ''4a2602a7a9d05de543d2725a753282e47f09d9f795692d1caca70f755ed4216a'' \<and>
   calculate_hash (unhashed (PDict (clean_results (tick_fpo (reading_at ''2025-01-01T00:00:00''))))) \<noteq>
   calculate_hash (unhashed (PDict (clean_results (tick_pof (reading_at ''2025-01-01T00:00:00'')))))"
proof -
  have "calculate_hash (unhashed datos_fpo) =
      Inr ''9cabaf3177eb733a8b727fe70ea7d4a62e193484ca7e4632fd757987369338be''"
    by (simp add: calculate_hash_def hash_input_def unhashed_def dict_get_def py_str_datos_fpo
        sha256_genesis)
  moreover have "calculate_hash (unhashed datos_pof) =
      Inr ''4a2602a7a9d05de543d2725a753282e47f09d9f795692d1caca70f755ed4216a''"
    by (simp add: calculate_hash_def hash_input_def unhashed_def dict_get_def py_str_datos_pof
        sha256_pof)
  moreover have "set (tick_fpo r) = set (tick_pof r)" for r
    by (auto simp: tick_fpo_def tick_pof_def)
  ultimately show ?thesis
    unfolding run_one_pass run_late_first_queue
    by (simp add: clean_results_tick_fpo clean_results_tick_pof vc_calculate_hash_eq)
qed

text \<open>The hash reads three fields of the block and nothing else.\<close>

lemma hash_reads_three_fields:
  assumes "dict_get b1 ''datos'' = dict_get b2 ''datos''"
      and "dict_get b1 ''timestamp'' = dict_get b2 ''timestamp''"
      and "(case dict_get b1 ''prev_hash'' of None \<Rightarrow> PStr [] | Some v \<Rightarrow> v) =
           (case dict_get b2 ''prev_hash'' of None \<Rightarrow> PStr [] | Some v \<Rightarrow> v)"
  shows "calculate_hash b1 = vc_calculate_hash b2 \<and> calculate_hash b1 = calculate_hash b2 \<and>
         hash_input b1 = hash_input b2"
proof -
  have "hash_input b1 = hash_input b2"
    unfolding hash_input_def assms(1) assms(2) assms(3) by (rule refl)
  then show ?thesis
    by (simp add: vc_calculate_hash_eq calculate_hash_def)
qed

lemma dict_set_fresh: "k \<notin> fst ` set d \<Longrightarrow> dict_set d k v = d @ [(k, v)]"
  by (induction d) auto

lemma foldl_dict_set_distinct:
  "distinct (map fst xs) \<Longrightarrow> fst ` set acc \<inter> fst ` set xs = {} \<Longrightarrow>
     foldl (\<lambda>acc tr. dict_set acc (fst tr) (g tr)) acc xs = acc @ map (\<lambda>tr. (fst tr, g tr)) xs"
proof (induction xs arbitrary: acc)
  case Nil
  then show ?case by simp
next
  case (Cons x xs)
  have fresh: "fst x \<notin> fst ` set acc"
    using Cons.prems(2) by auto
  have "fst ` set (acc @ [(fst x, g x)]) \<inter> fst ` set xs = {}"
    using Cons.prems by auto
  with Cons.IH [of "acc @ [(fst x, g x)]"] Cons.prems(1) fresh show ?case
    by (simp add: dict_set_fresh)
qed

lemma clean_results_distinct:
  "distinct (map fst results) \<Longrightarrow>
     clean_results results =
       map (\<lambda>tr. (fst tr, PDict [(''media'', media (snd tr)), (''desv'', desv (snd tr))])) results"
  unfolding clean_results_def
  using foldl_dict_set_distinct [of results "[]"
      "\<lambda>tr. PDict [(''media'', media (snd tr)), (''desv'', desv (snd tr))]"]
  by simp

lemma py_str_clean_results:
  assumes "distinct (map fst results)"
  shows "py_str (PDict (clean_results results)) = tick_text results"
proof -
  have e: "(\<lambda>kv. str_repr (fst kv) @ '': '' @ py_repr (snd kv)) \<circ>
           (\<lambda>tr. (fst tr, PDict [(''media'', media (snd tr)), (''desv'', desv (snd tr))])) =
           entry_text"
    by (rule ext) (simp add: entry_text_def str_repr_def escape_char_def Let_def)
  have "py_str (PDict (clean_results results)) =
      ''{'' @ join '', '' (map ((\<lambda>kv. str_repr (fst kv) @ '': '' @ py_repr (snd kv)) \<circ>
           (\<lambda>tr. (fst tr, PDict [(''media'', media (snd tr)), (''desv'', desv (snd tr))])))
         results) @ ''}''"
    by (simp add: clean_results_distinct [OF assms])
  then show ?thesis
    by (simp only: e tick_text_def)
qed

text \<open>
  Claim C5, amended. The serialization lists the channels in insertion order. For every
  block \<^verbatim>\<open>create_block\<close> builds from a tick (one entry per channel), \<^verbatim>\<open>str(datos)\<close> is
  \<open>tick_text results\<close>: the entries \<^verbatim>\<open>'channel': {'media': m, 'desv': d}\<close> in the order
  in which the results were inserted into the tick. The hash input is the previous hash,
  that text and the timestamp, and \<^verbatim>\<open>calculate_hash\<close> of \<^verbatim>\<open>main.py\<close> and of
  \<^verbatim>\<open>verificar_cadena.py\<close> both return its SHA-256, which is the stored hash. So two ticks
  with the same bindings in the same insertion order (and the same previous hash and
  timestamp) give the identical hash string.
\<close>

theorem hash_follows_insertion_order:
  assumes "create_block chain ts results = Inr b" and "distinct (map fst results)"
  shows "\<exists>p. dict_get b ''prev_hash'' = Some (PStr p) \<and>
             hash_input b = Inr (p @ tick_text results @ ts) \<and>
             calculate_hash b = Inr (sha256_hexdigest (p @ tick_text results @ ts)) \<and>
             vc_calculate_hash b = Inr (sha256_hexdigest (p @ tick_text results @ ts)) \<and>
             dict_get b ''hash'' = Some (PStr (sha256_hexdigest (p @ tick_text results @ ts)))"
proof -
  from assms(1) obtain prev h where
    b: "b = dict_set [(''timestamp'', PStr ts), (''datos'', PDict (clean_results results)),
                      (''alerta'', PBool (is_valid_data ts results)), (''prev_hash'', prev)]
                     ''hash'' (PStr h)"
    and h: "calculate_hash [(''timestamp'', PStr ts), (''datos'', PDict (clean_results results)),
                      (''alerta'', PBool (is_valid_data ts results)), (''prev_hash'', prev)] = Inr h"
    by (auto simp: create_block_def Let_def simp del: dict_set.simps
        split: sum.splits if_splits option.splits)
  from h obtain p where p: "prev = PStr p"
    by (auto simp: calculate_hash_def hash_input_def dict_get_def split: pyval.splits)
  have hi: "hash_input b = Inr (p @ tick_text results @ ts)"
    unfolding b p
    by (simp add: hash_input_def dict_get_def py_str_clean_results [OF assms(2)]
        del: py_str.simps)
  have hh: "h = sha256_hexdigest (p @ tick_text results @ ts)"
    using h unfolding p
    by (simp add: calculate_hash_def hash_input_def dict_get_def
        py_str_clean_results [OF assms(2)] del: py_str.simps)
  have "dict_get b ''prev_hash'' = Some (PStr p)" "dict_get b ''hash'' = Some (PStr h)"
    unfolding b p by (simp_all add: dict_get_def)
  with hi hh show ?thesis
    by (simp add: vc_calculate_hash_eq calculate_hash_def)
qed

lemma tick_text_pof:
  "tick_text (tick_pof od) = ''{'presion': {'media': 120.0, 'desv': 0.0}, 'oxigeno': {'media': 95.0, 'desv': 0.0}, 'frecuencia': {'media': 100.0, 'desv': 0.0}}''"
  by (simp add: tick_text_def entry_text_def tick_pof_def stat_entry_def repr_eval)

theorem hash_follows_insertion_order_witness:
  "create_block [] ''2025-01-01T00:00:00'' (tick_pof (reading_at ''2025-01-01T00:00:00'')) =
     Inr genesis_pof \<and>
   map fst (tick_pof (reading_at ''2025-01-01T00:00:00'')) = [''presion'', ''oxigeno'', ''frecuencia''] \<and>
   hash_input genesis_pof = Inr ''{'presion': {'media': 120.0, 'desv': 0.0}, 'oxigeno': {'media': 95.0, 'desv': 0.0}, 'frecuencia': {'media': 100.0, 'desv': 0.0}}2025-01-01T00:00:00'' \<and>
   vc_calculate_hash genesis_pof =
     Inr ''4a2602a7a9d05de543d2725a753282e47f09d9f795692d1caca70f755ed4216a''"
proof -
  have d: "distinct (map fst (tick_pof (reading_at ''2025-01-01T00:00:00'')))"
    by (simp add: tick_pof_def)
  have p: "dict_get genesis_pof ''prev_hash'' = Some (PStr [])"
    by (simp add: genesis_pof_def dict_get_def)
  have k: "map fst (tick_pof (reading_at ''2025-01-01T00:00:00'')) =
      [''presion'', ''oxigeno'', ''frecuencia'']"
    by (simp add: tick_pof_def)
  from hash_follows_insertion_order [OF create_block_genesis_pof d] p
  show ?thesis
    by (auto simp: create_block_genesis_pof tick_text_pof sha256_pof k)
qed

end
